theory Spec2Isabelle
  imports Complex_Main
begin

section \<open>Geometry primitives used by the edge query\<close>

text \<open>
  This theory embeds \<open>s2edgequery.cc\<close>, the edge query over a shape index, and settles
  the claims made about it.

  Coordinates are C++ doubles in the source.  They are idealised as reals.  The edge query
  itself only compares them, passes them on and stores them; the functions of the geometry
  utilities that compute with them (face clipping, interpolation, the projection that
  places the cell centres) are parameters of the model.  Most theorems below hold for
  every such function; the one that needs more of them says so in its hypotheses (an
  exact interpolation, a monotone projection).  NaN is left out: the inputs are finite
  points.
\<close>

type_synonym R2Point = "real \<times> real"

type_synonym S2Point = "real \<times> real \<times> real"

text \<open>
  Modelled from the spec: R1Interval and its operations (r1interval.h is not among the
  sources), the closed interval \<open>[lo, hi]\<close> behind the "2D rectangle bound /
  containment / clamp / intersect primitives".  An interval with \<open>lo > hi\<close> is
  empty; an empty interval is contained in every interval; \<open>ClampPoint\<close> is the
  point of the interval closest to the given one; \<open>iv[e]\<close> is the endpoint \<open>lo\<close>
  for \<open>e = 0\<close> and \<open>hi\<close> for \<open>e = 1\<close>.
\<close>

record R1Interval =
  lo :: real
  hi :: real

definition R1_is_empty :: "R1Interval \<Rightarrow> bool" where
  "R1_is_empty iv = (lo iv > hi iv)"

definition R1_FromPointPair :: "real \<Rightarrow> real \<Rightarrow> R1Interval" where
  "R1_FromPointPair p1 p2 =
     (if p1 \<le> p2 then \<lparr>lo = p1, hi = p2\<rparr> else \<lparr>lo = p2, hi = p1\<rparr>)"

definition R1_Contains :: "R1Interval \<Rightarrow> R1Interval \<Rightarrow> bool" where
  "R1_Contains iv other =
     (if R1_is_empty other then True else lo other \<ge> lo iv \<and> hi other \<le> hi iv)"

definition R1_Intersects :: "R1Interval \<Rightarrow> R1Interval \<Rightarrow> bool" where
  "R1_Intersects iv other =
     (if lo iv \<le> lo other then lo other \<le> hi iv \<and> lo other \<le> hi other
      else lo iv \<le> hi other \<and> lo iv \<le> hi iv)"

definition ClampPoint :: "R1Interval \<Rightarrow> real \<Rightarrow> real" where
  "ClampPoint iv p = max (lo iv) (min (hi iv) p)"

definition R1_get :: "R1Interval \<Rightarrow> nat \<Rightarrow> real" where
  "R1_get iv e = (if e = 0 then lo iv else hi iv)"

definition R1_set :: "R1Interval \<Rightarrow> nat \<Rightarrow> real \<Rightarrow> R1Interval" where
  "R1_set iv e v = (if e = 0 then iv\<lparr>lo := v\<rparr> else iv\<lparr>hi := v\<rparr>)"

text \<open>
  Modelled from the spec: R2Rect and its operations (r2rect.h is not among the sources),
  an axis-aligned rectangle given by one interval per axis: \<open>rect[0]\<close> is the
  interval on the u-axis and \<open>rect[1]\<close> the one on the v-axis, \<open>rect_lo\<close> is the
  corner \<open>lo()\<close>.  A rectangle is empty when it has no point, that is when one of its
  intervals is empty; containment and intersection hold when they hold on both axes;
  \<open>FromPointPair\<close> is the smallest rectangle that holds two points.
\<close>

record R2Rect =
  bounds0 :: R1Interval
  bounds1 :: R1Interval

definition axis :: "R2Rect \<Rightarrow> nat \<Rightarrow> R1Interval" where
  "axis r d = (if d = 0 then bounds0 r else bounds1 r)"

definition rect_lo :: "R2Rect \<Rightarrow> R2Point" where
  "rect_lo r = (lo (bounds0 r), lo (bounds1 r))"

definition R2_set :: "R2Rect \<Rightarrow> nat \<Rightarrow> nat \<Rightarrow> real \<Rightarrow> R2Rect" where
  "R2_set r d e v =
     (if d = 0 then r\<lparr>bounds0 := R1_set (bounds0 r) e v\<rparr>
      else r\<lparr>bounds1 := R1_set (bounds1 r) e v\<rparr>)"

definition is_empty :: "R2Rect \<Rightarrow> bool" where
  "is_empty r = (R1_is_empty (bounds0 r) \<or> R1_is_empty (bounds1 r))"

definition FromPointPair :: "R2Point \<Rightarrow> R2Point \<Rightarrow> R2Rect" where
  "FromPointPair p1 p2 =
     \<lparr>bounds0 = R1_FromPointPair (fst p1) (fst p2),
      bounds1 = R1_FromPointPair (snd p1) (snd p2)\<rparr>"

definition Contains :: "R2Rect \<Rightarrow> R2Rect \<Rightarrow> bool" where
  "Contains r other =
     (R1_Contains (bounds0 r) (bounds0 other) \<and> R1_Contains (bounds1 r) (bounds1 other))"

definition Intersects :: "R2Rect \<Rightarrow> R2Rect \<Rightarrow> bool" where
  "Intersects r other =
     (R1_Intersects (bounds0 r) (bounds0 other) \<and> R1_Intersects (bounds1 r) (bounds1 other))"

section \<open>Cell ids and padded cells\<close>

text \<open>
  Modelled from the spec: S2CellId and its operations (s2cellid.h is not among the
  sources).  The spec's cell id is "an identifier in a total order over all cells of all
  levels/faces; a cell's descendants form a contiguous id range
  \<open>[range_min, range_max]\<close>", over "6 faces, each recursively quadrisected" down to "the
  fixed maximum hierarchy depth (30)".

  A cell is kept as its level and the base-4 number \<open>digits\<close> made of its face
  followed by one child position per level.  Its id, the number the cells are ordered and
  compared by, is \<open>id_val\<close>: the digits, a marker bit, and zeros down to the leaf
  level, so that a cell lies in the middle of the ids of its descendants.  \<open>range_min\<close>
  and \<open>range_max\<close> are the first and the last leaf cell below a cell, \<open>contains\<close>
  holds for the ids between them, \<open>child\<close> appends a child position.
\<close>

definition kMaxLevel :: nat where
  "kMaxLevel = 30"

datatype S2CellId = S2CellId (digits: nat) (level: nat)

definition lsb :: "S2CellId \<Rightarrow> nat" where
  "lsb c = 4 ^ (kMaxLevel - level c)"

definition id_val :: "S2CellId \<Rightarrow> nat" where
  "id_val c = (2 * digits c + 1) * lsb c"

definition range_min :: "S2CellId \<Rightarrow> S2CellId" where
  "range_min c = S2CellId (digits c * lsb c) kMaxLevel"

definition range_max :: "S2CellId \<Rightarrow> S2CellId" where
  "range_max c = S2CellId ((digits c + 1) * lsb c - 1) kMaxLevel"

definition contains :: "S2CellId \<Rightarrow> S2CellId \<Rightarrow> bool" where
  "contains c other =
     (id_val other \<ge> id_val (range_min c) \<and> id_val other \<le> id_val (range_max c))"

definition child :: "S2CellId \<Rightarrow> nat \<Rightarrow> S2CellId" where
  "child c position = S2CellId (4 * digits c + position) (level c + 1)"

definition FromFace :: "nat \<Rightarrow> S2CellId" where
  "FromFace f = S2CellId f 0"

definition face :: "S2CellId \<Rightarrow> nat" where
  "face c = digits c div 4 ^ level c"

definition is_face :: "S2CellId \<Rightarrow> bool" where
  "is_face c = (level c = 0)"

definition GetSizeIJ :: "nat \<Rightarrow> nat" where
  "GetSizeIJ l = 2 ^ (kMaxLevel - l)"

text \<open>
  Modelled from the spec: S2PaddedCell (s2paddedcell.h is not among the sources), "a cell
  identity plus its exact 2D bound, center, and the four child-quadrant constructors",
  "(cell id, margin) wrapper exposing 2D bound, center, and child constructors indexed by
  quadrant \<open>(i, j)\<close>".

  A padded cell keeps its id, its margin, its bound and the integer coordinates of its
  lower corner on the face.  The centre is the projection of the integer midpoint; the
  projection \<open>uv\<close> from integer face coordinates to the u- or v-axis is a parameter.
  The child in quadrant \<open>(i, j)\<close> has child position \<open>2 i + j\<close> (in which order
  the four children follow each other inside the parent's id range is not in the spec;
  no theorem below depends on it); it takes one corner of its bound from the parent and
  the opposite one from the parent's middle.
\<close>

record S2PaddedCell =
  cell_id :: S2CellId
  padding_of :: real
  bound :: R2Rect
  ij_lo :: "nat \<times> nat"

definition middle :: "(nat \<Rightarrow> real) \<Rightarrow> S2PaddedCell \<Rightarrow> R2Rect" where
  "middle uv pcell =
     (let ij_size = GetSizeIJ (level (cell_id pcell));
          u = uv (2 * fst (ij_lo pcell) + ij_size);
          v = uv (2 * snd (ij_lo pcell) + ij_size)
      in \<lparr>bounds0 = \<lparr>lo = u - padding_of pcell, hi = u + padding_of pcell\<rparr>,
          bounds1 = \<lparr>lo = v - padding_of pcell, hi = v + padding_of pcell\<rparr>\<rparr>)"

definition S2PaddedCell_child :: "(nat \<Rightarrow> real) \<Rightarrow> S2PaddedCell \<Rightarrow> nat \<Rightarrow> nat \<Rightarrow> S2PaddedCell" where
  "S2PaddedCell_child uv parent i j =
     (let ij_size = GetSizeIJ (level (cell_id parent) + 1);
          m = middle uv parent
      in \<lparr>cell_id = child (cell_id parent) (2 * i + j),
          padding_of = padding_of parent,
          bound = R2_set (R2_set (bound parent) 0 (1 - i) (R1_get (axis m 0) (1 - i)))
                     1 (1 - j) (R1_get (axis m 1) (1 - j)),
          ij_lo = (fst (ij_lo parent) + i * ij_size, snd (ij_lo parent) + j * ij_size)\<rparr>)"

text \<open>
  \<open>S2PaddedCell(id, padding)\<close>: a face cell covers \<open>[-1, 1]\<close> on both axes, widened
  by the margin; any other cell is reached from its face cell through the child
  constructor, one digit of the id per level.
\<close>

fun S2PaddedCell_at :: "(nat \<Rightarrow> real) \<Rightarrow> nat \<Rightarrow> nat \<Rightarrow> real \<Rightarrow> S2PaddedCell" where
  "S2PaddedCell_at uv d 0 padding =
     \<lparr>cell_id = S2CellId d 0, padding_of = padding,
      bound = \<lparr>bounds0 = \<lparr>lo = - (1 + padding), hi = 1 + padding\<rparr>,
                bounds1 = \<lparr>lo = - (1 + padding), hi = 1 + padding\<rparr>\<rparr>,
      ij_lo = (0, 0)\<rparr>"
| "S2PaddedCell_at uv d (Suc l) padding =
     S2PaddedCell_child uv (S2PaddedCell_at uv (d div 4) l padding) ((d mod 4) div 2) (d mod 2)"

definition S2PaddedCell_of :: "(nat \<Rightarrow> real) \<Rightarrow> S2CellId \<Rightarrow> real \<Rightarrow> S2PaddedCell" where
  "S2PaddedCell_of uv c padding = S2PaddedCell_at uv (digits c) (level c) padding"

section \<open>The shape index and its iterator\<close>

text \<open>
  Modelled from the spec: S2Shape, S2ClippedShape, S2ShapeIndexCell, S2ShapeIndex and its
  iterator (s2shapeindex.h is not among the sources).  A shape has an "edge count and
  identifier; edges addressed by index"; an index cell holds, "per present shape, a
  clipped edge-index list"; the index "exposes a seekable, totally ordered cursor over
  stored cell ids and a point/region relation query".

  The stored cells are the list \<open>cell_map\<close> of the index, in iteration order.  A
  pointer to an index cell, as the engine keeps in its cell list, is the position of the
  cell in that list, and so is the iterator.  \<open>find_clipped\<close> is the first clipped
  shape of a cell with the given shape id.  \<open>shape\<close> reads the shape vector of the
  index; a shape id that the index does not hold is outside what the model describes, as
  it is outside what the source handles.
\<close>

record S2Shape =
  id_of :: nat
  num_edges :: int

record S2ClippedShape =
  shape_id :: nat
  clipped_edges :: "int list"

type_synonym S2ShapeIndexCell = "S2ClippedShape list"

record S2ShapeIndex =
  cell_map :: "(S2CellId \<times> S2ShapeIndexCell) list"
  shapes :: "S2Shape list"

type_synonym cell_ptr = nat

definition num_shape_ids :: "S2ShapeIndex \<Rightarrow> nat" where
  "num_shape_ids index = length (shapes index)"

definition shape :: "S2ShapeIndex \<Rightarrow> nat \<Rightarrow> S2Shape" where
  "shape index i = shapes index ! i"

definition cell_at :: "S2ShapeIndex \<Rightarrow> cell_ptr \<Rightarrow> S2ShapeIndexCell" where
  "cell_at index p = snd (cell_map index ! p)"

definition find_clipped :: "S2ShapeIndexCell \<Rightarrow> nat \<Rightarrow> S2ClippedShape option" where
  "find_clipped cell sid = find (\<lambda>clipped. shape_id clipped = sid) cell"

text \<open>\<open>Seek(target)\<close>: "advance cursor to first stored id \<open>\<ge>\<close> cellId".\<close>

definition Seek :: "S2ShapeIndex \<Rightarrow> S2CellId \<Rightarrow> nat" where
  "Seek index target =
     length (takeWhile (\<lambda>entry. id_val (fst entry) < id_val target) (cell_map index))"

definition Done :: "S2ShapeIndex \<Rightarrow> nat \<Rightarrow> bool" where
  "Done index it = (it \<ge> length (cell_map index))"

definition iter_id :: "S2ShapeIndex \<Rightarrow> nat \<Rightarrow> S2CellId" where
  "iter_id index it = fst (cell_map index ! it)"

datatype CellRelation = INDEXED | SUBDIVIDED | DISJOINT

text \<open>
  \<open>Locate(target)\<close> positions the iterator and tells how the target lies to the stored
  cells: INDEXED when "the index holds this id or an ancestor" (the iterator is then at
  that cell), SUBDIVIDED when "the index holds descendants", DISJOINT otherwise.  A stored
  cell that contains the target is either the first one at or after the target's
  \<open>range_min\<close>, or the one just before it.
\<close>

definition Locate :: "S2ShapeIndex \<Rightarrow> S2CellId \<Rightarrow> CellRelation \<times> nat" where
  "Locate index target =
     (let it = Seek index (range_min target) in
      if \<not> Done index it \<and> id_val (iter_id index it) \<ge> id_val target
           \<and> id_val (range_min (iter_id index it)) \<le> id_val target
      then (INDEXED, it)
      else if \<not> Done index it \<and> id_val (iter_id index it) \<le> id_val (range_max target)
      then (SUBDIVIDED, it)
      else if it \<noteq> 0 \<and> id_val (range_max (iter_id index (it - 1))) \<ge> id_val target
      then (INDEXED, it - 1)
      else (DISJOINT, if it \<noteq> 0 then it - 1 else it))"

section \<open>The edge query\<close>

text \<open>
  The development-time assertions of the source (\<open>DCHECK\<close>) are branches of the model:
  a failed assertion stops the computation with \<open>DCheckFailed\<close>.
\<close>

datatype error = DCheckFailed

type_synonym 'a result = "error + 'a"

text \<open>\<open>and_then r f\<close> goes on with \<open>f\<close> unless \<open>r\<close> has failed.\<close>

definition and_then :: "'a result \<Rightarrow> ('a \<Rightarrow> 'b result) \<Rightarrow> 'b result" where
  "and_then r f = (case r of Inl e \<Rightarrow> Inl e | Inr x \<Rightarrow> f x)"

lemma and_then_Inr [simp]: "and_then (Inr x) f = f x"
  by (simp add: and_then_def)

lemma and_then_Inl [simp]: "and_then (Inl e) f = Inl e"
  by (simp add: and_then_def)

lemma and_then_cong [fundef_cong]:
  assumes "r = r'" and "\<And>x. r' = Inr x \<Longrightarrow> f x = f' x"
  shows "and_then r f = and_then r' f'"
  using assms by (cases r') (simp_all add: and_then_def)

text \<open>
  Modelled from the spec: the geometry utilities the engine consumes (s2edgeutil.h and
  s2paddedcell.h are not among the sources) are parameters of the model, collected in one
  record: the "face-clip of a spherical edge into 2D segments" (\<open>GetFaceSegments\<close> for
  all faces, \<open>ClipToFace\<close> for one face, which may find nothing on that face), the "1D
  linear interpolation along a segment", the "shrink-to-fit walk" that yields "the
  smallest cell id whose region contains that bound", and the projection of integer face
  coordinates that places the cell centres.
\<close>

record FaceSegment =
  seg_face :: nat
  seg_a :: R2Point
  seg_b :: R2Point

record S2External =
  GetFaceSegments :: "S2Point \<Rightarrow> S2Point \<Rightarrow> FaceSegment list"
  ClipToFace :: "S2Point \<Rightarrow> S2Point \<Rightarrow> nat \<Rightarrow> (R2Point \<times> R2Point) option"
  InterpolateDouble :: "real \<Rightarrow> real \<Rightarrow> real \<Rightarrow> real \<Rightarrow> real \<Rightarrow> real"
  ShrinkToFit :: "S2PaddedCell \<Rightarrow> R2Rect \<Rightarrow> S2CellId"
  SiTitoUV :: "nat \<Rightarrow> real"

text \<open>
  The members of the class S2EdgeQuery: the index queried (\<open>index_\<close>), the iterator
  over it (\<open>iter_\<close>), the endpoints of the current face segment (\<open>a_\<close> and
  \<open>b_\<close>) and the cells found so far (\<open>cells_\<close>).  An Isabelle name cannot end in
  an underscore, so the members are \<open>m_index\<close>, \<open>m_iter\<close>, \<open>m_a\<close>, \<open>m_b\<close>
  and \<open>m_cells\<close>.  Every function that changes the engine takes it as its last
  argument and returns the changed engine.
\<close>

record S2EdgeQuery =
  m_index :: S2ShapeIndex
  m_iter :: nat
  m_a :: R2Point
  m_b :: R2Point
  m_cells :: "cell_ptr list"

subsection \<open>Splitting an edge bound\<close>

definition SplitBound :: "R2Rect \<Rightarrow> nat \<Rightarrow> real \<Rightarrow> nat \<Rightarrow> real \<Rightarrow> (R2Rect \<times> R2Rect) result" where
  "SplitBound edge_bound u_end u v_end v =
     (let child0 = R2_set (R2_set edge_bound 0 (1 - u_end) u) 1 (1 - v_end) v in
      if is_empty child0 then Inl DCheckFailed
      else if \<not> Contains edge_bound child0 then Inl DCheckFailed
      else
        let child1 = R2_set (R2_set edge_bound 0 u_end u) 1 v_end v in
        if is_empty child1 then Inl DCheckFailed
        else if \<not> Contains edge_bound child1 then Inl DCheckFailed
        else Inr (child0, child1))"

text \<open>
  \<open>SplitUBound\<close> and \<open>SplitVBound\<close> read the members \<open>a_\<close> and \<open>b_\<close>; the
  model takes them as the arguments \<open>a\<close> and \<open>b\<close>.  The recursive subdivision
  does not change these members (\<open>GetCells_pcell_found\<close> below), so the values passed
  at the start of a step are the ones a later read would find.
\<close>

definition SplitUBound :: "S2External \<Rightarrow> R2Point \<Rightarrow> R2Point \<Rightarrow> R2Rect \<Rightarrow> real \<Rightarrow> (R2Rect \<times> R2Rect) result" where
  "SplitUBound g a b edge_bound u =
     (let v = ClampPoint (axis edge_bound 1)
                (InterpolateDouble g u (fst a) (fst b) (snd a) (snd b));
          diag = (if (fst a > fst b) \<noteq> (snd a > snd b) then 1 else 0)
      in SplitBound edge_bound 0 u diag v)"

definition SplitVBound :: "S2External \<Rightarrow> R2Point \<Rightarrow> R2Point \<Rightarrow> R2Rect \<Rightarrow> real \<Rightarrow> (R2Rect \<times> R2Rect) result" where
  "SplitVBound g a b edge_bound v =
     (let u = ClampPoint (axis edge_bound 0)
                (InterpolateDouble g v (snd a) (snd b) (fst a) (fst b));
          diag = (if (fst a > fst b) \<noteq> (snd a > snd b) then 1 else 0)
      in SplitBound edge_bound diag u 0 v)"

subsection \<open>The recursive subdivision\<close>

text \<open>
  \<open>ClipVAxis\<close> and the second half of \<open>GetCells(pcell, edge_bound)\<close> call
  \<open>GetCells\<close> on children of \<open>pcell\<close>.  In the model the function they call is the
  argument \<open>recurse\<close>, and the state \<open>s\<close> is what the calls pass along: the engine
  when \<open>recurse\<close> is \<open>GetCells_pcell\<close> itself, a log of the calls when the calls are
  to be counted.
\<close>

definition ClipVAxis ::
  "(S2PaddedCell \<Rightarrow> R2Rect \<Rightarrow> 's \<Rightarrow> 's result) \<Rightarrow> S2External \<Rightarrow> R2Point \<Rightarrow> R2Point \<Rightarrow>
   R2Rect \<Rightarrow> real \<Rightarrow> nat \<Rightarrow> S2PaddedCell \<Rightarrow> 's \<Rightarrow> 's result" where
  "ClipVAxis recurse g a b edge_bound center i pcell s =
     (if hi (axis edge_bound 1) < center then
        recurse (S2PaddedCell_child (SiTitoUV g) pcell i 0) edge_bound s
      else if lo (axis edge_bound 1) \<ge> center then
        recurse (S2PaddedCell_child (SiTitoUV g) pcell i 1) edge_bound s
      else
        and_then (SplitVBound g a b edge_bound center) (\<lambda>child_bounds.
          and_then (recurse (S2PaddedCell_child (SiTitoUV g) pcell i 0) (fst child_bounds) s)
            (recurse (S2PaddedCell_child (SiTitoUV g) pcell i 1) (snd child_bounds))))"

text \<open>Lines 190 to 215 of \<open>GetCells(pcell, edge_bound)\<close>: the split among the children.\<close>

definition GetCells_split ::
  "(S2PaddedCell \<Rightarrow> R2Rect \<Rightarrow> 's \<Rightarrow> 's result) \<Rightarrow> S2External \<Rightarrow> R2Point \<Rightarrow> R2Point \<Rightarrow>
   S2PaddedCell \<Rightarrow> R2Rect \<Rightarrow> 's \<Rightarrow> 's result" where
  "GetCells_split recurse g a b pcell edge_bound s =
     (let center = rect_lo (middle (SiTitoUV g) pcell) in
      if hi (axis edge_bound 0) < fst center then
        ClipVAxis recurse g a b edge_bound (snd center) 0 pcell s
      else if lo (axis edge_bound 0) \<ge> fst center then
        ClipVAxis recurse g a b edge_bound (snd center) 1 pcell s
      else
        and_then (SplitUBound g a b edge_bound (fst center)) (\<lambda>child_bounds.
          if hi (axis edge_bound 1) < snd center then
            and_then (recurse (S2PaddedCell_child (SiTitoUV g) pcell 0 0) (fst child_bounds) s)
              (recurse (S2PaddedCell_child (SiTitoUV g) pcell 1 0) (snd child_bounds))
          else if lo (axis edge_bound 1) \<ge> snd center then
            and_then (recurse (S2PaddedCell_child (SiTitoUV g) pcell 0 1) (fst child_bounds) s)
              (recurse (S2PaddedCell_child (SiTitoUV g) pcell 1 1) (snd child_bounds))
          else
            and_then (ClipVAxis recurse g a b (fst child_bounds) (snd center) 0 pcell s)
              (ClipVAxis recurse g a b (snd child_bounds) (snd center) 1 pcell)))"

lemma ClipVAxis_cong:
  assumes "\<And>j eb t. recurse (S2PaddedCell_child (SiTitoUV g) pcell i j) eb t
                    = recurse' (S2PaddedCell_child (SiTitoUV g) pcell i j) eb t"
  shows "ClipVAxis recurse g a b edge_bound center i pcell s
         = ClipVAxis recurse' g a b edge_bound center i pcell s"
proof -
  have "recurse (S2PaddedCell_child (SiTitoUV g) pcell i j) eb
        = recurse' (S2PaddedCell_child (SiTitoUV g) pcell i j) eb" for j eb
    by (rule ext) (rule assms)
  then show ?thesis
    unfolding ClipVAxis_def by (simp only:)
qed

lemma GetCells_split_cong [fundef_cong]:
  assumes "g = g'" "a = a'" "b = b'" "pcell = pcell'" "edge_bound = edge_bound'" "s = s'"
    and r: "\<And>i j eb t. recurse (S2PaddedCell_child (SiTitoUV g') pcell' i j) eb t
                    = recurse' (S2PaddedCell_child (SiTitoUV g') pcell' i j) eb t"
  shows "GetCells_split recurse g a b pcell edge_bound s
         = GetCells_split recurse' g' a' b' pcell' edge_bound' s'"
proof -
  have r': "recurse (S2PaddedCell_child (SiTitoUV g') pcell' i j) eb
            = recurse' (S2PaddedCell_child (SiTitoUV g') pcell' i j) eb" for i j eb
    by (rule ext) (rule r)
  have c: "ClipVAxis recurse g' a' b' eb c i pcell' = ClipVAxis recurse' g' a' b' eb c i pcell'"
    for eb c i
    by (rule ext, rule ClipVAxis_cong) (rule r)
  show ?thesis
    unfolding GetCells_split_def assms(1-6) by (simp only: c r')
qed

lemma id_val_range_min: "id_val (range_min c) = 2 * digits c * lsb c + 1"
  by (simp add: id_val_def range_min_def lsb_def)

lemma lsb_pos: "0 < lsb c"
  by (simp add: lsb_def)

lemma id_val_range_max: "id_val (range_max c) = 2 * (digits c + 1) * lsb c - 1"
proof -
  have "1 \<le> (digits c + 1) * lsb c"
    using lsb_pos [of c] by (simp add: Suc_le_eq)
  then show ?thesis
    by (simp add: id_val_def range_max_def lsb_def diff_mult_distrib2)
qed

lemma Seek_reaches:
  assumes "\<not> Done index (Seek index target)"
  shows "id_val target \<le> id_val (iter_id index (Seek index target))"
proof -
  let ?P = "\<lambda>entry. id_val (fst entry) < id_val target"
  have "length (takeWhile ?P (cell_map index)) < length (cell_map index)"
    using assms by (simp add: Done_def Seek_def)
  then have "\<not> ?P (cell_map index ! length (takeWhile ?P (cell_map index)))"
    by (rule nth_length_takeWhile)
  then show ?thesis
    by (simp add: iter_id_def Seek_def)
qed

lemma leaf_range:
  assumes "kMaxLevel \<le> level c"
    and "id_val (range_min c) \<le> n" and "n \<le> id_val (range_max c)"
  shows "n = id_val c"
proof -
  have l: "lsb c = 1" using assms(1) by (simp add: lsb_def)
  have "id_val (range_min c) = 2 * digits c + 1"
    and "id_val (range_max c) = 2 * digits c + 1"
    and "id_val c = 2 * digits c + 1"
    by (simp_all add: id_val_range_min id_val_range_max l) (simp add: id_val_def l)
  then show ?thesis
    using assms(2,3) by linarith
qed

function GetCells_pcell :: "S2External \<Rightarrow> S2PaddedCell \<Rightarrow> R2Rect \<Rightarrow> S2EdgeQuery \<Rightarrow> S2EdgeQuery result" where
  "GetCells_pcell g pcell edge_bound q =
     (let q1 = q\<lparr>m_iter := Seek (m_index q) (range_min (cell_id pcell))\<rparr> in
      if Done (m_index q1) (m_iter q1)
           \<or> id_val (iter_id (m_index q1) (m_iter q1)) > id_val (range_max (cell_id pcell))
      then Inr q1
      else if id_val (iter_id (m_index q1) (m_iter q1)) = id_val (cell_id pcell)
      then Inr (q1\<lparr>m_cells := m_cells q1 @ [m_iter q1]\<rparr>)
      else GetCells_split (GetCells_pcell g) g (m_a q1) (m_b q1) pcell edge_bound q1)"
  by pat_completeness auto
termination
proof (relation "measure (\<lambda>(g, pcell, edge_bound, q). kMaxLevel - level (cell_id pcell))")
  show "wf (measure (\<lambda>(g, pcell, edge_bound, q). kMaxLevel - level (cell_id pcell)))"
    by simp
next
  fix g :: S2External and pcell :: S2PaddedCell and edge_bound :: R2Rect
    and q q1 :: S2EdgeQuery and i j :: nat and eb :: R2Rect and t :: S2EdgeQuery
  assume q1: "q1 = q\<lparr>m_iter := Seek (m_index q) (range_min (cell_id pcell))\<rparr>"
    and far: "\<not> (Done (m_index q1) (m_iter q1)
                \<or> id_val (range_max (cell_id pcell)) < id_val (iter_id (m_index q1) (m_iter q1)))"
    and ne: "id_val (iter_id (m_index q1) (m_iter q1)) \<noteq> id_val (cell_id pcell)"
  have "id_val (range_min (cell_id pcell)) \<le> id_val (iter_id (m_index q1) (m_iter q1))"
    using far q1 Seek_reaches [of "m_index q" "range_min (cell_id pcell)"] by simp
  with far ne have "\<not> kMaxLevel \<le> level (cell_id pcell)"
    using leaf_range [of "cell_id pcell" "id_val (iter_id (m_index q1) (m_iter q1))"] by auto
  then show "((g, S2PaddedCell_child (SiTitoUV g) pcell i j, eb, t), (g, pcell, edge_bound, q))
             \<in> measure (\<lambda>(g, pcell, edge_bound, q). kMaxLevel - level (cell_id pcell))"
    by (simp add: S2PaddedCell_child_def child_def Let_def)
qed

declare GetCells_pcell.simps [simp del]

subsection \<open>Cell discovery\<close>

text \<open>
  \<open>GetCells(a, b)\<close>: the loop over the face segments is \<open>GetCells_segments\<close>.  The
  assertion of line 144 is the branch that fails when the iterator's cell does not
  contain the edge root.
\<close>

fun GetCells_segments :: "S2External \<Rightarrow> FaceSegment list \<Rightarrow> S2EdgeQuery \<Rightarrow> S2EdgeQuery result" where
  "GetCells_segments g [] q = Inr q"
| "GetCells_segments g (segment # segments) q =
     (let q1 = q\<lparr>m_a := seg_a segment, m_b := seg_b segment\<rparr>;
          edge_bound = FromPointPair (m_a q1) (m_b q1);
          pcell = S2PaddedCell_of (SiTitoUV g) (FromFace (seg_face segment)) 0;
          edge_root = ShrinkToFit g pcell edge_bound;
          relation = Locate (m_index q1) edge_root;
          q2 = q1\<lparr>m_iter := snd relation\<rparr>
      in and_then
           (if fst relation = INDEXED then
              (if \<not> contains (iter_id (m_index q2) (m_iter q2)) edge_root
               then Inl DCheckFailed
               else Inr (q2\<lparr>m_cells := m_cells q2 @ [m_iter q2]\<rparr>))
            else if fst relation = SUBDIVIDED then
              GetCells_pcell g
                (if \<not> is_face edge_root then S2PaddedCell_of (SiTitoUV g) edge_root 0
                 else pcell)
                edge_bound q2
            else Inr q2)
           (GetCells_segments g segments))"

definition GetCells :: "S2External \<Rightarrow> S2Point \<Rightarrow> S2Point \<Rightarrow> S2EdgeQuery \<Rightarrow> S2EdgeQuery result" where
  "GetCells g a b q = GetCells_segments g (GetFaceSegments g a b) (q\<lparr>m_cells := []\<rparr>)"

text \<open>
  \<open>GetCells(a, b, root, cells)\<close>: \<open>cells\<close> is the caller's vector as it is before the
  call; the result carries the engine, the value returned and the caller's vector after
  the call.
\<close>

definition GetCells_root ::
  "S2External \<Rightarrow> S2Point \<Rightarrow> S2Point \<Rightarrow> S2PaddedCell \<Rightarrow> cell_ptr list \<Rightarrow> S2EdgeQuery \<Rightarrow>
   (S2EdgeQuery \<times> bool \<times> cell_ptr list) result" where
  "GetCells_root g a b root_cell cells q =
     (let q1 = q\<lparr>m_cells := []\<rparr> in
      and_then
        (case ClipToFace g a b (face (cell_id root_cell)) of
           None \<Rightarrow> Inr q1
         | Some clipped \<Rightarrow>
             let q2 = q1\<lparr>m_a := fst clipped, m_b := snd clipped\<rparr>;
                 edge_bound = FromPointPair (m_a q2) (m_b q2)
             in if Intersects (bound root_cell) edge_bound
                then GetCells_pcell g root_cell edge_bound q2
                else Inr q2)
        (\<lambda>q3. if m_cells q3 = [] then Inr (q3, False, cells)
              else Inr (q3, True, m_cells q3)))"

subsection \<open>Candidate collection\<close>

definition kMaxBruteForceEdges :: int where
  "kMaxBruteForceEdges = 27"

text \<open>
  \<open>GetCandidates(a, b, shape, edges)\<close>: \<open>edges\<close> is the caller's vector as it is
  before the call; the result carries the engine, the value returned and the vector after
  the call.  \<open>edges->clear()\<close> makes the vector \<open>edges0\<close>; the loop of the
  brute-force path pushes \<open>0, ..., max_edges - 1\<close>; the inner loop over
  \<open>clipped->edge(j)\<close> appends the whole clipped list; \<open>std::sort\<close> followed by
  \<open>std::unique\<close> and \<open>erase\<close> is \<open>remdups_adj\<close> after \<open>sort\<close>.
\<close>

definition GetCandidates ::
  "S2External \<Rightarrow> S2Point \<Rightarrow> S2Point \<Rightarrow> S2Shape \<Rightarrow> int list \<Rightarrow> S2EdgeQuery \<Rightarrow>
   (S2EdgeQuery \<times> bool \<times> int list) result" where
  "GetCandidates g a b shp edges q =
     (let edges0 = [];
          max_edges = num_edges shp
      in if max_edges \<le> kMaxBruteForceEdges then
           Inr (q, True, edges0 @ [0..max_edges - 1])
         else
           and_then (GetCells g a b q) (\<lambda>q1.
             if m_cells q1 = [] then Inr (q1, False, edges0)
             else
               let sid = id_of shp;
                   edges1 = foldl (\<lambda>es cell.
                               case find_clipped (cell_at (m_index q1) cell) sid of
                                 None \<Rightarrow> es
                               | Some clipped \<Rightarrow> es @ clipped_edges clipped)
                             edges0 (m_cells q1);
                   edges2 = (if length (m_cells q1) > 1 then remdups_adj (sort edges1)
                             else edges1)
               in Inr (q1, edges2 \<noteq> [], edges2)))"

text \<open>
  The \<open>EdgeMap\<close> is a \<open>std::map\<close> from shape pointers to edge vectors.  The model
  keeps it as an association list without duplicate keys, keyed by the shape itself:
  \<open>EdgeMap_at\<close> is \<open>operator[]\<close>, which adds an empty entry for a missing key;
  \<open>EdgeMap_get\<close> reads and \<open>EdgeMap_put\<close> writes the vector of an entry, as the
  source does through the pointer \<open>edges\<close>.
\<close>

type_synonym EdgeMap = "(S2Shape \<times> int list) list"

definition EdgeMap_at :: "EdgeMap \<Rightarrow> S2Shape \<Rightarrow> EdgeMap" where
  "EdgeMap_at edge_map k = (if map_of edge_map k = None then edge_map @ [(k, [])] else edge_map)"

definition EdgeMap_get :: "EdgeMap \<Rightarrow> S2Shape \<Rightarrow> int list" where
  "EdgeMap_get edge_map k = (case map_of edge_map k of None \<Rightarrow> [] | Some es \<Rightarrow> es)"

definition EdgeMap_put :: "EdgeMap \<Rightarrow> S2Shape \<Rightarrow> int list \<Rightarrow> EdgeMap" where
  "EdgeMap_put edge_map k es = map (\<lambda>entry. if fst entry = k then (k, es) else entry) edge_map"

definition GetCandidates_EdgeMap ::
  "S2External \<Rightarrow> S2Point \<Rightarrow> S2Point \<Rightarrow> EdgeMap \<Rightarrow> S2EdgeQuery \<Rightarrow>
   (S2EdgeQuery \<times> bool \<times> EdgeMap) result" where
  "GetCandidates_EdgeMap g a b edge_map q =
     (if num_shape_ids (m_index q) = 1 then
        let shp = shape (m_index q) 0;
            edge_map1 = EdgeMap_at edge_map shp;
            edge_map2 = (if length edge_map1 \<noteq> 1 then EdgeMap_at [] shp else edge_map1)
        in and_then (GetCandidates g a b shp (EdgeMap_get edge_map2 shp) q) (\<lambda>res.
             Inr (fst res, fst (snd res), EdgeMap_put edge_map2 shp (snd (snd res))))
      else
        and_then (GetCells g a b q) (\<lambda>q1.
          let edge_map1 = [] in
          if m_cells q1 = [] then Inr (q1, False, edge_map1)
          else
            let edge_map2 =
                  foldl (\<lambda>em cell.
                     foldl (\<lambda>em1 clipped.
                        let k = shape (m_index q1) (shape_id clipped);
                            em2 = EdgeMap_at em1 k
                        in EdgeMap_put em2 k (EdgeMap_get em2 k @ clipped_edges clipped))
                       em (cell_at (m_index q1) cell))
                    edge_map1 (m_cells q1);
                edge_map3 =
                  (if length (m_cells q1) > 1
                   then map (\<lambda>entry. (fst entry, remdups_adj (sort (snd entry)))) edge_map2
                   else edge_map2)
            in Inr (q1, edge_map3 \<noteq> [], edge_map3)))"

section \<open>The calls of one subdivision step\<close>

text \<open>
  The calls that one step of the subdivision makes are read off the code itself: the
  split is run with \<open>log_call\<close> in place of the recursive call, which records the
  padded cell and the edge bound it is given and does nothing else.
\<close>

lemma error_unique: "(e :: error) = e'"
  by (cases e, cases e') simp

lemma and_then_fails: "and_then r (\<lambda>x. Inl e) = Inl e"
  by (cases r) (simp_all add: error_unique)

lemma and_then_Inr_right [simp]: "and_then r Inr = r"
  by (cases r) simp_all

lemma and_then_assoc: "and_then (and_then r f) h = and_then r (\<lambda>x. and_then (f x) h)"
  by (cases r) simp_all

definition log_call ::
  "S2PaddedCell \<Rightarrow> R2Rect \<Rightarrow> (S2PaddedCell \<times> R2Rect) list \<Rightarrow> (S2PaddedCell \<times> R2Rect) list result" where
  "log_call pcell edge_bound calls = Inr (calls @ [(pcell, edge_bound)])"

definition ClipVAxis_calls ::
  "S2External \<Rightarrow> R2Point \<Rightarrow> R2Point \<Rightarrow> R2Rect \<Rightarrow> real \<Rightarrow> nat \<Rightarrow> S2PaddedCell \<Rightarrow> (S2PaddedCell \<times> R2Rect) list result" where
  "ClipVAxis_calls g a b edge_bound center i pcell = ClipVAxis log_call g a b edge_bound center i pcell []"

definition GetCells_calls ::
  "S2External \<Rightarrow> R2Point \<Rightarrow> R2Point \<Rightarrow> S2PaddedCell \<Rightarrow> R2Rect \<Rightarrow> (S2PaddedCell \<times> R2Rect) list result" where
  "GetCells_calls g a b pcell edge_bound = GetCells_split log_call g a b pcell edge_bound []"

fun run_calls ::
  "(S2PaddedCell \<Rightarrow> R2Rect \<Rightarrow> 's \<Rightarrow> 's result) \<Rightarrow> (S2PaddedCell \<times> R2Rect) list \<Rightarrow> 's \<Rightarrow> 's result" where
  "run_calls recurse [] s = Inr s"
| "run_calls recurse (call # calls) s =
     and_then (recurse (fst call) (snd call) s) (run_calls recurse calls)"

lemma run_calls_append:
  "run_calls recurse (xs @ ys) s = and_then (run_calls recurse xs s) (run_calls recurse ys)"
  by (induction xs arbitrary: s) (simp_all add: and_then_assoc cong: and_then_cong)

lemma run_calls_log: "run_calls log_call calls cs0 = Inr (cs0 @ calls)"
  by (induction calls arbitrary: cs0) (simp_all add: log_call_def)

lemma ClipVAxis_calls_eq:
  "ClipVAxis_calls g a b edge_bound center i pcell =
     (if hi (axis edge_bound 1) < center then
        Inr [(S2PaddedCell_child (SiTitoUV g) pcell i 0, edge_bound)]
      else if lo (axis edge_bound 1) \<ge> center then
        Inr [(S2PaddedCell_child (SiTitoUV g) pcell i 1, edge_bound)]
      else
        and_then (SplitVBound g a b edge_bound center) (\<lambda>child_bounds.
          Inr [(S2PaddedCell_child (SiTitoUV g) pcell i 0, fst child_bounds),
               (S2PaddedCell_child (SiTitoUV g) pcell i 1, snd child_bounds)]))"
  by (simp add: ClipVAxis_calls_def ClipVAxis_def log_call_def)

lemma ClipVAxis_run:
  "ClipVAxis recurse g a b edge_bound center i pcell s =
     and_then (ClipVAxis_calls g a b edge_bound center i pcell) (\<lambda>calls. run_calls recurse calls s)"
  by (simp add: ClipVAxis_calls_eq ClipVAxis_def and_then_assoc cong: and_then_cong)

lemma GetCells_calls_eq:
  "GetCells_calls g a b pcell edge_bound =
     (let center = rect_lo (middle (SiTitoUV g) pcell) in
      if hi (axis edge_bound 0) < fst center then
        ClipVAxis_calls g a b edge_bound (snd center) 0 pcell
      else if lo (axis edge_bound 0) \<ge> fst center then
        ClipVAxis_calls g a b edge_bound (snd center) 1 pcell
      else
        and_then (SplitUBound g a b edge_bound (fst center)) (\<lambda>child_bounds.
          if hi (axis edge_bound 1) < snd center then
            Inr [(S2PaddedCell_child (SiTitoUV g) pcell 0 0, fst child_bounds),
                 (S2PaddedCell_child (SiTitoUV g) pcell 1 0, snd child_bounds)]
          else if lo (axis edge_bound 1) \<ge> snd center then
            Inr [(S2PaddedCell_child (SiTitoUV g) pcell 0 1, fst child_bounds),
                 (S2PaddedCell_child (SiTitoUV g) pcell 1 1, snd child_bounds)]
          else
            and_then (ClipVAxis_calls g a b (fst child_bounds) (snd center) 0 pcell) (\<lambda>calls0.
              and_then (ClipVAxis_calls g a b (snd child_bounds) (snd center) 1 pcell) (\<lambda>calls1.
                Inr (calls0 @ calls1)))))"
proof -
  have run: "ClipVAxis log_call g a b eb c i pcell cs =
      and_then (ClipVAxis_calls g a b eb c i pcell) (\<lambda>calls. Inr (cs @ calls))" for eb c i cs
    by (simp add: ClipVAxis_run [of log_call] run_calls_log)
  have fn: "ClipVAxis log_call g a b eb c i pcell =
      (\<lambda>cs. and_then (ClipVAxis_calls g a b eb c i pcell) (\<lambda>calls. Inr (cs @ calls)))" for eb c i
    by (rule ext) (rule run)
  show ?thesis
    unfolding GetCells_calls_def GetCells_split_def fn
    by (simp add: log_call_def Let_def and_then_assoc cong: and_then_cong if_cong)
qed

lemma run_calls_Nil: "run_calls recurse [] = Inr"
  by (rule ext) simp

lemma run_calls_single: "run_calls recurse [call] = recurse (fst call) (snd call)"
  by (rule ext) (simp add: run_calls_Nil)

lemma run_calls_both:
  "and_then (and_then A (\<lambda>calls0. and_then B (\<lambda>calls1. Inr (calls0 @ calls1))))
     (\<lambda>calls. run_calls recurse calls s)
   = and_then (and_then A (\<lambda>calls0. run_calls recurse calls0 s))
       (\<lambda>s1. and_then B (\<lambda>calls1. run_calls recurse calls1 s1))"
proof (cases A)
  case (Inl e)
  then show ?thesis by simp
next
  case A: (Inr calls0)
  show ?thesis
  proof (cases B)
    case (Inl e)
    then show ?thesis using A by (simp add: and_then_fails)
  next
    case (Inr calls1)
    then show ?thesis using A by (simp add: run_calls_append)
  qed
qed

lemma GetCells_split_run:
  "GetCells_split recurse g a b pcell edge_bound s =
     and_then (GetCells_calls g a b pcell edge_bound) (\<lambda>calls. run_calls recurse calls s)"
proof -
  have fn: "ClipVAxis recurse g a b eb c i pcell =
      (\<lambda>s. and_then (ClipVAxis_calls g a b eb c i pcell) (\<lambda>calls. run_calls recurse calls s))" for eb c i
    by (rule ext) (rule ClipVAxis_run)
  show ?thesis
  proof (cases "SplitUBound g a b edge_bound (fst (rect_lo (middle (SiTitoUV g) pcell)))")
    case (Inl e)
    then show ?thesis
      unfolding GetCells_calls_eq GetCells_split_def fn Let_def by simp
  next
    case (Inr child_bounds)
    then show ?thesis
      unfolding GetCells_calls_eq GetCells_split_def fn Let_def
      by (simp add: run_calls_both [symmetric] run_calls_single)
  qed
qed

section \<open>Child bounds and child cells\<close>

lemma SplitUBound_ok:
  assumes "\<not> is_empty eb" and "lo (axis eb 0) \<le> u" and "u \<le> hi (axis eb 0)"
  shows "\<exists>c0 c1. SplitUBound g a b eb u = Inr (c0, c1)
           \<and> \<not> is_empty c0 \<and> \<not> is_empty c1 \<and> Contains eb c0 \<and> Contains eb c1
           \<and> (lo (axis c0 1) = lo (axis eb 1) \<and> hi (axis c0 1) = lo (axis c1 1)
                \<and> hi (axis c1 1) = hi (axis eb 1)
              \<or> lo (axis c1 1) = lo (axis eb 1) \<and> hi (axis c1 1) = lo (axis c0 1)
                \<and> hi (axis c0 1) = hi (axis eb 1))"
  using assms
  by (auto simp: SplitUBound_def SplitBound_def R2_set_def R1_set_def is_empty_def
      R1_is_empty_def Contains_def R1_Contains_def ClampPoint_def axis_def Let_def)

lemma SplitVBound_ok:
  assumes "\<not> is_empty eb" and "lo (axis eb 1) \<le> v" and "v \<le> hi (axis eb 1)"
  shows "\<exists>c0 c1. SplitVBound g a b eb v = Inr (c0, c1)
           \<and> \<not> is_empty c0 \<and> \<not> is_empty c1 \<and> Contains eb c0 \<and> Contains eb c1"
  using assms
  by (auto simp: SplitVBound_def SplitBound_def R2_set_def R1_set_def is_empty_def
      R1_is_empty_def Contains_def R1_Contains_def ClampPoint_def axis_def Let_def)


lemma Contains_refl: "Contains eb eb"
  by (simp add: Contains_def R1_Contains_def)

lemma Contains_trans:
  assumes "Contains r s" and "Contains s t" and "\<not> is_empty t"
  shows "Contains r t"
  using assms
  by (auto simp: Contains_def R1_Contains_def is_empty_def R1_is_empty_def split: if_splits)

lemma ClipVAxis_calls_ok:
  assumes "\<not> is_empty eb"
  shows "\<exists>calls js. ClipVAxis_calls g a b eb c i pcell = Inr calls
           \<and> map fst calls = map (S2PaddedCell_child (SiTitoUV g) pcell i) js
           \<and> distinct js \<and> (\<forall>j\<in>set js. j < 2)
           \<and> (\<forall>call\<in>set calls. \<not> is_empty (snd call) \<and> Contains eb (snd call))
           \<and> length calls \<le> 2
           \<and> (hi (axis eb 1) < c \<or> c \<le> lo (axis eb 1) \<longrightarrow> length calls = 1)"
proof -
  consider (lower) "hi (axis eb 1) < c"
    | (upper) "\<not> hi (axis eb 1) < c" "c \<le> lo (axis eb 1)"
    | (both) "\<not> hi (axis eb 1) < c" "\<not> c \<le> lo (axis eb 1)"
    by blast
  then show ?thesis
  proof cases
    case lower
    then have "ClipVAxis_calls g a b eb c i pcell
               = Inr [(S2PaddedCell_child (SiTitoUV g) pcell i 0, eb)]"
      by (simp add: ClipVAxis_calls_eq)
    then show ?thesis
      using assms by (intro exI [of _ "[(S2PaddedCell_child (SiTitoUV g) pcell i 0, eb)]"]
          exI [of _ "[0]"]) (simp add: Contains_refl)
  next
    case upper
    then have "ClipVAxis_calls g a b eb c i pcell
               = Inr [(S2PaddedCell_child (SiTitoUV g) pcell i 1, eb)]"
      by (simp add: ClipVAxis_calls_eq)
    then show ?thesis
      using assms by (intro exI [of _ "[(S2PaddedCell_child (SiTitoUV g) pcell i 1, eb)]"]
          exI [of _ "[1]"]) (simp add: Contains_refl)
  next
    case both
    then have "lo (axis eb 1) \<le> c" and "c \<le> hi (axis eb 1)"
      by simp_all
    from SplitVBound_ok [OF assms this, of g a b]
    obtain c0 c1 where split: "SplitVBound g a b eb c = Inr (c0, c1)"
      and ok: "\<not> is_empty c0" "\<not> is_empty c1" "Contains eb c0" "Contains eb c1"
      by blast
    from both split have "ClipVAxis_calls g a b eb c i pcell
               = Inr [(S2PaddedCell_child (SiTitoUV g) pcell i 0, c0),
                      (S2PaddedCell_child (SiTitoUV g) pcell i 1, c1)]"
      by (simp add: ClipVAxis_calls_eq)
    then show ?thesis
      using ok both
      by (intro exI [of _ "[(S2PaddedCell_child (SiTitoUV g) pcell i 0, c0),
                      (S2PaddedCell_child (SiTitoUV g) pcell i 1, c1)]"]
          exI [of _ "[0, 1]"]) simp
  qed
qed


definition quadrant_calls ::
  "S2External \<Rightarrow> S2PaddedCell \<Rightarrow> R2Rect \<Rightarrow> (nat \<times> nat) list \<Rightarrow> (S2PaddedCell \<times> R2Rect) list \<Rightarrow> bool" where
  "quadrant_calls g pcell eb ijs calls =
     (map fst calls = map (\<lambda>ij. S2PaddedCell_child (SiTitoUV g) pcell (fst ij) (snd ij)) ijs
      \<and> distinct ijs \<and> (\<forall>ij\<in>set ijs. fst ij < 2 \<and> snd ij < 2)
      \<and> (\<forall>call\<in>set calls. \<not> is_empty (snd call) \<and> Contains eb (snd call)))"

lemma quadrant_calls_side:
  assumes "map fst calls = map (S2PaddedCell_child (SiTitoUV g) pcell i) js"
    and "distinct js" and "\<forall>j\<in>set js. j < 2" and "i < 2"
    and "\<forall>call\<in>set calls. \<not> is_empty (snd call) \<and> Contains eb (snd call)"
  shows "quadrant_calls g pcell eb (map (Pair i) js) calls"
  using assms by (simp add: quadrant_calls_def comp_def distinct_map inj_on_def)

lemma quadrant_calls_append:
  assumes "quadrant_calls g pcell eb0 (map (Pair 0) js0) calls0"
    and "quadrant_calls g pcell eb1 (map (Pair 1) js1) calls1"
    and "Contains eb eb0" and "Contains eb eb1"
  shows "quadrant_calls g pcell eb (map (Pair 0) js0 @ map (Pair 1) js1) (calls0 @ calls1)"
  using assms unfolding quadrant_calls_def
  by (auto intro: Contains_trans)

lemma GetCells_calls_ok:
  assumes ne: "\<not> is_empty eb"
  shows "\<exists>calls ijs. GetCells_calls g a b pcell eb = Inr calls
           \<and> quadrant_calls g pcell eb ijs calls \<and> length calls \<le> 3"
proof -
  define cu where "cu = fst (rect_lo (middle (SiTitoUV g) pcell))"
  define cv where "cv = snd (rect_lo (middle (SiTitoUV g) pcell))"
  have side: "\<exists>calls ijs. ClipVAxis_calls g a b eb cv i pcell = Inr calls
           \<and> quadrant_calls g pcell eb ijs calls \<and> length calls \<le> 3" if "i < 2" for i
  proof -
    from ClipVAxis_calls_ok [OF ne, of g a b cv i pcell]
    obtain calls js where c: "ClipVAxis_calls g a b eb cv i pcell = Inr calls"
      and m: "map fst calls = map (S2PaddedCell_child (SiTitoUV g) pcell i) js"
      and d: "distinct js" "\<forall>j\<in>set js. j < 2"
      and bnd: "\<forall>call\<in>set calls. \<not> is_empty (snd call) \<and> Contains eb (snd call)"
      and len: "length calls \<le> 2"
      by blast
    from quadrant_calls_side [OF m d that bnd] c len show ?thesis
      by auto
  qed
  consider (left) "hi (axis eb 0) < cu"
    | (right) "\<not> hi (axis eb 0) < cu" "cu \<le> lo (axis eb 0)"
    | (mid) "\<not> hi (axis eb 0) < cu" "\<not> cu \<le> lo (axis eb 0)"
    by blast
  then show ?thesis
  proof cases
    case left
    then have "GetCells_calls g a b pcell eb = ClipVAxis_calls g a b eb cv 0 pcell"
      by (simp add: GetCells_calls_eq cu_def cv_def Let_def)
    then show ?thesis using side [of 0] by simp
  next
    case right
    then have "GetCells_calls g a b pcell eb = ClipVAxis_calls g a b eb cv 1 pcell"
      by (simp add: GetCells_calls_eq cu_def cv_def Let_def)
    then show ?thesis using side [of 1] by simp
  next
    case mid
    then have "lo (axis eb 0) \<le> cu" and "cu \<le> hi (axis eb 0)"
      by simp_all
    from SplitUBound_ok [OF ne this, of g a b]
    obtain s0 s1 where split: "SplitUBound g a b eb cu = Inr (s0, s1)"
      and ok: "\<not> is_empty s0" "\<not> is_empty s1" "Contains eb s0" "Contains eb s1"
      and shared: "lo (axis s0 1) = lo (axis eb 1) \<and> hi (axis s0 1) = lo (axis s1 1)
                \<and> hi (axis s1 1) = hi (axis eb 1)
              \<or> lo (axis s1 1) = lo (axis eb 1) \<and> hi (axis s1 1) = lo (axis s0 1)
                \<and> hi (axis s0 1) = hi (axis eb 1)"
      by blast
    consider (lower) "hi (axis eb 1) < cv"
      | (upper) "\<not> hi (axis eb 1) < cv" "cv \<le> lo (axis eb 1)"
      | (both) "\<not> hi (axis eb 1) < cv" "\<not> cv \<le> lo (axis eb 1)"
      by blast
    then show ?thesis
    proof cases
      case lower
      with mid split have "GetCells_calls g a b pcell eb
          = Inr [(S2PaddedCell_child (SiTitoUV g) pcell 0 0, s0),
                 (S2PaddedCell_child (SiTitoUV g) pcell 1 0, s1)]"
        by (simp add: GetCells_calls_eq cu_def cv_def Let_def)
      moreover have "quadrant_calls g pcell eb [(0, 0), (1, 0)]
          [(S2PaddedCell_child (SiTitoUV g) pcell 0 0, s0),
           (S2PaddedCell_child (SiTitoUV g) pcell 1 0, s1)]"
        using ok by (simp add: quadrant_calls_def)
      ultimately show ?thesis by fastforce
    next
      case upper
      with mid split have "GetCells_calls g a b pcell eb
          = Inr [(S2PaddedCell_child (SiTitoUV g) pcell 0 1, s0),
                 (S2PaddedCell_child (SiTitoUV g) pcell 1 1, s1)]"
        by (simp add: GetCells_calls_eq cu_def cv_def Let_def)
      moreover have "quadrant_calls g pcell eb [(0, 1), (1, 1)]
          [(S2PaddedCell_child (SiTitoUV g) pcell 0 1, s0),
           (S2PaddedCell_child (SiTitoUV g) pcell 1 1, s1)]"
        using ok by (simp add: quadrant_calls_def)
      ultimately show ?thesis by fastforce
    next
      case both
      from ClipVAxis_calls_ok [OF ok(1), of g a b cv 0 pcell]
      obtain calls0 js0 where c0: "ClipVAxis_calls g a b s0 cv 0 pcell = Inr calls0"
        and m0: "map fst calls0 = map (S2PaddedCell_child (SiTitoUV g) pcell 0) js0"
        and d0: "distinct js0" "\<forall>j\<in>set js0. j < 2"
        and b0: "\<forall>call\<in>set calls0. \<not> is_empty (snd call) \<and> Contains s0 (snd call)"
        and l0: "length calls0 \<le> 2"
          "hi (axis s0 1) < cv \<or> cv \<le> lo (axis s0 1) \<longrightarrow> length calls0 = 1"
        by blast
      from ClipVAxis_calls_ok [OF ok(2), of g a b cv 1 pcell]
      obtain calls1 js1 where c1: "ClipVAxis_calls g a b s1 cv 1 pcell = Inr calls1"
        and m1: "map fst calls1 = map (S2PaddedCell_child (SiTitoUV g) pcell 1) js1"
        and d1: "distinct js1" "\<forall>j\<in>set js1. j < 2"
        and b1: "\<forall>call\<in>set calls1. \<not> is_empty (snd call) \<and> Contains s1 (snd call)"
        and l1: "length calls1 \<le> 2"
          "hi (axis s1 1) < cv \<or> cv \<le> lo (axis s1 1) \<longrightarrow> length calls1 = 1"
        by blast
      have "GetCells_calls g a b pcell eb = Inr (calls0 @ calls1)"
        using mid both split c0 c1 by (simp add: GetCells_calls_eq cu_def cv_def Let_def)
      moreover have "quadrant_calls g pcell eb (map (Pair 0) js0 @ map (Pair 1) js1) (calls0 @ calls1)"
        by (rule quadrant_calls_append [OF quadrant_calls_side [OF m0 d0 _ b0]
              quadrant_calls_side [OF m1 d1 _ b1] ok(3,4)]) simp_all
      moreover have "length calls0 = 1 \<or> length calls1 = 1"
        using shared l0(2) l1(2) by linarith
      then have "length (calls0 @ calls1) \<le> 3"
        using l0(1) l1(1) by auto
      ultimately show ?thesis by blast
    qed
  qed
qed

lemma cell_id_child:
  "cell_id (S2PaddedCell_child uv pcell i j) = child (cell_id pcell) (2 * i + j)"
  by (simp add: S2PaddedCell_child_def Let_def)

lemma contains_iff:
  "contains c x \<longleftrightarrow>
     2 * digits c * lsb c + 1 \<le> id_val x \<and> id_val x + 1 \<le> 2 * (digits c + 1) * lsb c"
proof -
  have "1 \<le> 2 * (digits c + 1) * lsb c"
    using lsb_pos [of c] by (simp add: Suc_le_eq)
  then show ?thesis
    by (auto simp: contains_def id_val_range_min id_val_range_max)
qed

lemma contains_own_id:
  assumes "id_val x = id_val c"
  shows "contains c x"
  using lsb_pos [of c] assms by (simp add: contains_iff id_val_def algebra_simps Suc_le_eq)

lemma lsb_child:
  assumes "level c < kMaxLevel"
  shows "lsb c = 4 * lsb (child c p)"
proof -
  have "kMaxLevel - level c = Suc (kMaxLevel - (level c + 1))"
    using assms by simp
  then show ?thesis
    by (simp add: lsb_def child_def)
qed

lemma contains_child_iff:
  "contains (child c p) x \<longleftrightarrow>
     8 * (digits c * lsb (child c p)) + 2 * (p * lsb (child c p)) + 1 \<le> id_val x
     \<and> id_val x + 1 \<le> 8 * (digits c * lsb (child c p)) + 2 * (p * lsb (child c p))
                         + 2 * lsb (child c p)"
proof -
  have "digits (child c p) = 4 * digits c + p" by (simp add: child_def)
  then show ?thesis
    by (simp add: contains_iff algebra_simps)
qed

lemma child_contained:
  assumes "level c < kMaxLevel" and "p < 4" and "contains (child c p) x"
  shows "contains c x"
proof -
  define L where "L = lsb (child c p)"
  have l: "lsb c = 4 * L" unfolding L_def by (rule lsb_child [OF assms(1)])
  have "p * L \<le> 3 * L" using assms(2) by (intro mult_le_mono1) simp
  moreover have "8 * (digits c * L) + 2 * (p * L) + 1 \<le> id_val x"
    and "id_val x + 1 \<le> 8 * (digits c * L) + 2 * (p * L) + 2 * L"
    using assms(3) unfolding L_def contains_child_iff by simp_all
  ultimately have "8 * (digits c * L) + 1 \<le> id_val x"
    and "id_val x + 1 \<le> 8 * (digits c * L) + 8 * L"
    by linarith+
  then show ?thesis
    by (simp add: contains_iff l algebra_simps)
qed

lemma child_disjoint:
  assumes "contains (child c p) x" and "contains (child c p') x"
  shows "p = p'"
proof (rule ccontr)
  assume ne: "p \<noteq> p'"
  define L where "L = lsb (child c p)"
  have L': "lsb (child c p') = L" by (simp add: L_def lsb_def child_def)
  have a: "8 * (digits c * L) + 2 * (p * L) + 1 \<le> id_val x"
    "id_val x + 1 \<le> 8 * (digits c * L) + 2 * (p * L) + 2 * L"
    using assms(1) unfolding L_def contains_child_iff by simp_all
  have b: "8 * (digits c * L) + 2 * (p' * L) + 1 \<le> id_val x"
    "id_val x + 1 \<le> 8 * (digits c * L) + 2 * (p' * L) + 2 * L"
    using assms(2) unfolding contains_child_iff L' by simp_all
  have step: "r * L + L \<le> r' * L" if "r < r'" for r r'
  proof -
    have "(r + 1) * L \<le> r' * L" using that by (intro mult_le_mono1) simp
    then show ?thesis by (simp add: algebra_simps)
  qed
  from ne consider "p < p'" | "p' < p" by linarith
  then show False
  proof cases
    case 1
    from step [OF this] a b show False by linarith
  next
    case 2
    from step [OF this] a b show False by linarith
  qed
qed

section \<open>What the recursive subdivision finds\<close>

definition cells_found :: "S2CellId list \<Rightarrow> S2EdgeQuery \<Rightarrow> S2EdgeQuery \<Rightarrow> bool" where
  "cells_found cs q q' =
     (m_index q' = m_index q \<and> m_a q' = m_a q \<and> m_b q' = m_b q
      \<and> (\<exists>new. m_cells q' = m_cells q @ new \<and> distinct new
            \<and> (\<forall>p\<in>set new. p < length (cell_map (m_index q))
                  \<and> (\<exists>c\<in>set cs. contains c (iter_id (m_index q) p)))))"

lemma cells_found_mono:
  assumes "cells_found cs q q'" and "\<And>c x. c \<in> set cs \<Longrightarrow> contains c x \<Longrightarrow> \<exists>c'\<in>set cs'. contains c' x"
  shows "cells_found cs' q q'"
  using assms unfolding cells_found_def by blast

lemma run_calls_found:
  fixes recurse :: "S2PaddedCell \<Rightarrow> R2Rect \<Rightarrow> S2EdgeQuery \<Rightarrow> S2EdgeQuery result"
  assumes "\<And>call s. call \<in> set calls \<Longrightarrow>
             \<exists>s'. recurse (fst call) (snd call) s = Inr s' \<and> cells_found [cell_id (fst call)] s s'"
    and "sorted_wrt (\<lambda>c c'. \<forall>x. \<not> (contains c x \<and> contains c' x)) (map (\<lambda>call. cell_id (fst call)) calls)"
  shows "\<exists>s'. run_calls recurse calls s = Inr s'
              \<and> cells_found (map (\<lambda>call. cell_id (fst call)) calls) s s'"
  using assms
proof (induction calls arbitrary: s)
  case Nil
  then show ?case by (simp add: cells_found_def)
next
  case (Cons call calls)
  from Cons.prems(1) [of call s]
  obtain s1 where s1: "recurse (fst call) (snd call) s = Inr s1"
    and f1: "cells_found [cell_id (fst call)] s s1"
    by auto
  from Cons.IH [of s1] Cons.prems
  obtain s2 where s2: "run_calls recurse calls s1 = Inr s2"
    and f2: "cells_found (map (\<lambda>call. cell_id (fst call)) calls) s1 s2"
    by auto
  from f1 obtain new1 where n1: "m_cells s1 = m_cells s @ new1" "distinct new1"
    "\<forall>p\<in>set new1. p < length (cell_map (m_index s))
        \<and> contains (cell_id (fst call)) (iter_id (m_index s) p)"
    and same1: "m_index s1 = m_index s" "m_a s1 = m_a s" "m_b s1 = m_b s"
    unfolding cells_found_def by auto
  from f2 obtain new2 where n2: "m_cells s2 = m_cells s1 @ new2" "distinct new2"
    "\<forall>p\<in>set new2. p < length (cell_map (m_index s1))
        \<and> (\<exists>c\<in>set (map (\<lambda>call. cell_id (fst call)) calls). contains c (iter_id (m_index s1) p))"
    and same2: "m_index s2 = m_index s1" "m_a s2 = m_a s1" "m_b s2 = m_b s1"
    unfolding cells_found_def by auto
  have disj: "set new1 \<inter> set new2 = {}"
  proof (rule ccontr)
    assume "set new1 \<inter> set new2 \<noteq> {}"
    then obtain p where p: "p \<in> set new1" "p \<in> set new2" by auto
    from n1(3) p(1) have c1: "contains (cell_id (fst call)) (iter_id (m_index s) p)" by simp
    from n2(3) p(2) same1 obtain c where c: "c \<in> set (map (\<lambda>call. cell_id (fst call)) calls)"
      "contains c (iter_id (m_index s) p)" by fastforce
    from Cons.prems(2)
    have "\<forall>c'\<in>set (map (\<lambda>call. cell_id (fst call)) calls).
            \<forall>x. \<not> (contains (cell_id (fst call)) x \<and> contains c' x)"
      by (simp only: list.map sorted_wrt.simps) blast
    with c(1) have "\<forall>x. \<not> (contains (cell_id (fst call)) x \<and> contains c x)"
      by blast
    with c1 c(2) show False by blast
  qed
  have A: "m_cells s2 = m_cells s @ (new1 @ new2)" using n1(1) n2(1) by simp
  have B: "distinct (new1 @ new2)" using n1(2) n2(2) disj by simp
  have C: "\<forall>p\<in>set (new1 @ new2). p < length (cell_map (m_index s))
        \<and> (\<exists>c\<in>set (map (\<lambda>call. cell_id (fst call)) (call # calls)). contains c (iter_id (m_index s) p))"
    using n1(3) n2(3) same1 by auto
  have "m_index s2 = m_index s" "m_a s2 = m_a s" "m_b s2 = m_b s"
    using same1 same2 by simp_all
  then have "cells_found (map (\<lambda>call. cell_id (fst call)) (call # calls)) s s2"
    unfolding cells_found_def using A B C
    by (intro conjI exI [of _ "new1 @ new2"])
  then show ?case using s1 s2 by simp
qed

lemma quadrant_cells_disjoint:
  assumes "quadrant_calls g pcell eb ijs calls"
  shows "sorted_wrt (\<lambda>c c'. \<forall>x. \<not> (contains c x \<and> contains c' x))
           (map (\<lambda>call. cell_id (fst call)) calls)"
proof -
  have ids: "map (\<lambda>call. cell_id (fst call)) calls
        = map (\<lambda>ij. child (cell_id pcell) (2 * fst ij + snd ij)) ijs"
  proof -
    have "map (\<lambda>call. cell_id (fst call)) calls = map cell_id (map fst calls)"
      by simp
    also have "\<dots> = map (\<lambda>ij. child (cell_id pcell) (2 * fst ij + snd ij)) ijs"
      using assms by (simp add: quadrant_calls_def cell_id_child comp_def)
    finally show ?thesis .
  qed
  have d: "distinct ijs" and small: "\<forall>ij\<in>set ijs. fst ij < 2 \<and> snd ij < 2"
    using assms by (simp_all add: quadrant_calls_def)
  have "sorted_wrt (\<lambda>c c'. \<forall>x. \<not> (contains c x \<and> contains c' x))
          (map (\<lambda>ij. child (cell_id pcell) (2 * fst ij + snd ij)) ijs)"
    using d small
  proof (induction ijs)
    case Nil
    then show ?case by simp
  next
    case (Cons ij ijs)
    have "\<not> (contains (child (cell_id pcell) (2 * fst ij + snd ij)) x
              \<and> contains (child (cell_id pcell) (2 * fst ij' + snd ij')) x)"
      if "ij' \<in> set ijs" for ij' x
    proof
      assume "contains (child (cell_id pcell) (2 * fst ij + snd ij)) x
              \<and> contains (child (cell_id pcell) (2 * fst ij' + snd ij')) x"
      then have "2 * fst ij + snd ij = 2 * fst ij' + snd ij'"
        using child_disjoint by blast
      moreover have "fst ij < 2" "snd ij < 2" "fst ij' < 2" "snd ij' < 2"
        using Cons.prems(2) that by simp_all
      ultimately have "fst ij = fst ij' \<and> snd ij = snd ij'" by presburger
      then have "ij = ij'" by (simp add: prod_eq_iff)
      with Cons.prems(1) that show False by simp
    qed
    with Cons show ?case by simp
  qed
  with ids show ?thesis by simp
qed

lemma quadrant_call_cases:
  assumes "quadrant_calls g pcell eb ijs calls" and "call \<in> set calls"
  shows "\<exists>i j. i < 2 \<and> j < 2 \<and> fst call = S2PaddedCell_child (SiTitoUV g) pcell i j
           \<and> \<not> is_empty (snd call) \<and> Contains eb (snd call)"
proof -
  from assms(1)
  have eq: "map fst calls = map (\<lambda>ij. S2PaddedCell_child (SiTitoUV g) pcell (fst ij) (snd ij)) ijs"
    by (simp add: quadrant_calls_def)
  from assms(2) have "fst call \<in> set (map fst calls)" by simp
  then have "fst call \<in> set (map (\<lambda>ij. S2PaddedCell_child (SiTitoUV g) pcell (fst ij) (snd ij)) ijs)"
    unfolding eq .
  then obtain ij where "ij \<in> set ijs" "fst call = S2PaddedCell_child (SiTitoUV g) pcell (fst ij) (snd ij)"
    by auto
  then show ?thesis
    using assms unfolding quadrant_calls_def by blast
qed

lemma GetCells_pcell_found:
  "\<not> is_empty eb \<Longrightarrow>
     \<exists>q'. GetCells_pcell g pcell eb q = Inr q' \<and> cells_found [cell_id pcell] q q'"
proof (induction g pcell eb q rule: GetCells_pcell.induct)
  case (1 g pcell eb q)
  define q1 where "q1 = q\<lparr>m_iter := Seek (m_index q) (range_min (cell_id pcell))\<rparr>"
  have unfold: "GetCells_pcell g pcell eb q =
      (if Done (m_index q1) (m_iter q1)
           \<or> id_val (iter_id (m_index q1) (m_iter q1)) > id_val (range_max (cell_id pcell))
       then Inr q1
       else if id_val (iter_id (m_index q1) (m_iter q1)) = id_val (cell_id pcell)
       then Inr (q1\<lparr>m_cells := m_cells q1 @ [m_iter q1]\<rparr>)
       else GetCells_split (GetCells_pcell g) g (m_a q1) (m_b q1) pcell eb q1)"
    by (subst GetCells_pcell.simps) (simp add: q1_def Let_def)
  have q1_same: "m_index q1 = m_index q" "m_a q1 = m_a q" "m_b q1 = m_b q" "m_cells q1 = m_cells q"
    by (simp_all add: q1_def)
  consider (none) "Done (m_index q1) (m_iter q1)
           \<or> id_val (iter_id (m_index q1) (m_iter q1)) > id_val (range_max (cell_id pcell))"
    | (exact) "\<not> (Done (m_index q1) (m_iter q1)
           \<or> id_val (iter_id (m_index q1) (m_iter q1)) > id_val (range_max (cell_id pcell)))"
        "id_val (iter_id (m_index q1) (m_iter q1)) = id_val (cell_id pcell)"
    | (descend) "\<not> (Done (m_index q1) (m_iter q1)
           \<or> id_val (iter_id (m_index q1) (m_iter q1)) > id_val (range_max (cell_id pcell)))"
        "id_val (iter_id (m_index q1) (m_iter q1)) \<noteq> id_val (cell_id pcell)"
    by blast
  then show ?case
  proof cases
    case none
    then have "GetCells_pcell g pcell eb q = Inr q1" by (simp add: unfold)
    moreover have "cells_found [cell_id pcell] q q1"
      by (simp add: cells_found_def q1_same)
    ultimately show ?thesis by blast
  next
    case exact
    then have "GetCells_pcell g pcell eb q = Inr (q1\<lparr>m_cells := m_cells q1 @ [m_iter q1]\<rparr>)"
      by (simp add: unfold)
    moreover have "cells_found [cell_id pcell] q (q1\<lparr>m_cells := m_cells q1 @ [m_iter q1]\<rparr>)"
      using exact contains_own_id [of "iter_id (m_index q1) (m_iter q1)" "cell_id pcell"]
      by (simp add: cells_found_def q1_same Done_def)
    ultimately show ?thesis by blast
  next
    case descend
    have "id_val (range_min (cell_id pcell)) \<le> id_val (iter_id (m_index q1) (m_iter q1))"
      using descend(1) Seek_reaches [of "m_index q" "range_min (cell_id pcell)"]
      by (simp add: q1_def)
    with descend have "\<not> kMaxLevel \<le> level (cell_id pcell)"
      using leaf_range [of "cell_id pcell" "id_val (iter_id (m_index q1) (m_iter q1))"] by auto
    then have lvl: "level (cell_id pcell) < kMaxLevel" by simp
    from GetCells_calls_ok [OF "1.prems", of g "m_a q1" "m_b q1" pcell]
    obtain calls ijs where calls: "GetCells_calls g (m_a q1) (m_b q1) pcell eb = Inr calls"
      and quad: "quadrant_calls g pcell eb ijs calls"
      by blast
    have step: "\<exists>s'. GetCells_pcell g (fst call) (snd call) s = Inr s'
                  \<and> cells_found [cell_id (fst call)] s s'" if "call \<in> set calls" for call s
    proof -
      from quadrant_call_cases [OF quad that]
      obtain i j where ij: "fst call = S2PaddedCell_child (SiTitoUV g) pcell i j"
        and ne: "\<not> is_empty (snd call)"
        by blast
      from "1.IH" [OF q1_def descend ne, of i j s] show ?thesis
        by (simp add: ij)
    qed
    from run_calls_found [of calls "GetCells_pcell g" q1, OF step quadrant_cells_disjoint [OF quad]]
    obtain s' where run: "run_calls (GetCells_pcell g) calls q1 = Inr s'"
      and found: "cells_found (map (\<lambda>call. cell_id (fst call)) calls) q1 s'"
      by blast
    have "GetCells_pcell g pcell eb q = Inr s'"
      using descend calls run by (simp add: unfold GetCells_split_run)
    moreover have "cells_found [cell_id pcell] q1 s'"
    proof (rule cells_found_mono [OF found])
      fix c x
      assume "c \<in> set (map (\<lambda>call. cell_id (fst call)) calls)" and cx: "contains c x"
      then obtain call where "call \<in> set calls" "c = cell_id (fst call)" by auto
      with quadrant_call_cases [OF quad this(1)]
      obtain i j where "i < 2" "j < 2" "c = child (cell_id pcell) (2 * i + j)"
        by (auto simp: cell_id_child)
      with cx lvl have "contains (cell_id pcell) x"
        by (intro child_contained [of "cell_id pcell" "2 * i + j" x]) simp_all
      then show "\<exists>c'\<in>set [cell_id pcell]. contains c' x" by simp
    qed
    then have "cells_found [cell_id pcell] q s'"
      by (simp add: cells_found_def q1_same)
    ultimately show ?thesis by blast
  qed
qed

section \<open>Cell discovery always returns\<close>

lemma FromPointPair_not_empty: "\<not> is_empty (FromPointPair p1 p2)"
  by (simp add: is_empty_def FromPointPair_def R1_FromPointPair_def R1_is_empty_def)

lemma id_val_le_range_max: "id_val c \<le> id_val (range_max c)"
  using contains_own_id [of c c] by (simp add: contains_def)

lemma range_min_le_id_val: "id_val (range_min c) \<le> id_val c"
  using contains_own_id [of c c] by (simp add: contains_def)

lemma Seek_before:
  assumes "p < Seek index target"
  shows "id_val (iter_id index p) < id_val target"
proof -
  let ?P = "\<lambda>entry. id_val (fst entry) < id_val target"
  from assms have p: "p < length (takeWhile ?P (cell_map index))"
    by (simp add: Seek_def)
  then have "takeWhile ?P (cell_map index) ! p \<in> set (takeWhile ?P (cell_map index))"
    by (rule nth_mem)
  then have "?P (takeWhile ?P (cell_map index) ! p)"
    by (rule set_takeWhileD [THEN conjunct2])
  then show ?thesis
    using p by (simp add: takeWhile_nth iter_id_def)
qed

lemma Seek_le_length: "Seek index target \<le> length (cell_map index)"
  by (simp add: Seek_def length_takeWhile_le)

lemma Locate_INDEXED:
  assumes "fst (Locate index target) = INDEXED"
  shows "contains (iter_id index (snd (Locate index target))) target
         \<and> snd (Locate index target) < length (cell_map index)"
proof -
  define it where "it = Seek index (range_min target)"
  consider (here) "\<not> Done index it" "id_val (iter_id index it) \<ge> id_val target"
      "id_val (range_min (iter_id index it)) \<le> id_val target"
      "Locate index target = (INDEXED, it)"
    | (before) "it \<noteq> 0" "id_val (range_max (iter_id index (it - 1))) \<ge> id_val target"
      "Locate index target = (INDEXED, it - 1)"
    using assms unfolding Locate_def it_def [symmetric] Let_def
    by (auto split: if_splits)
  then show ?thesis
  proof cases
    case here
    have "id_val target \<le> id_val (range_max (iter_id index it))"
      using here(2) id_val_le_range_max [of "iter_id index it"] by linarith
    then show ?thesis
      using here by (simp add: contains_def Done_def)
  next
    case before
    then have lt: "it - 1 < Seek index (range_min target)" by (simp add: it_def)
    from Seek_before [OF this]
    have "id_val (iter_id index (it - 1)) < id_val (range_min target)" .
    then have "id_val (range_min (iter_id index (it - 1))) \<le> id_val target"
      using range_min_le_id_val [of target] range_min_le_id_val [of "iter_id index (it - 1)"]
      by linarith
    moreover have "it - 1 < length (cell_map index)"
      using lt Seek_le_length [of index "range_min target"] by linarith
    ultimately show ?thesis
      using before by (simp add: contains_def)
  qed
qed

lemma GetCells_segments_total:
  "\<exists>q'. GetCells_segments g segments q = Inr q' \<and> m_index q' = m_index q
        \<and> (\<forall>p\<in>set (m_cells q'). p \<in> set (m_cells q) \<or> p < length (cell_map (m_index q)))"
proof (induction segments arbitrary: q)
  case Nil
  then show ?case by simp
next
  case (Cons segment segments)
  define q1 where "q1 = q\<lparr>m_a := seg_a segment, m_b := seg_b segment\<rparr>"
  define edge_bound where "edge_bound = FromPointPair (m_a q1) (m_b q1)"
  define pcell where "pcell = S2PaddedCell_of (SiTitoUV g) (FromFace (seg_face segment)) 0"
  define edge_root where "edge_root = ShrinkToFit g pcell edge_bound"
  define relation where "relation = Locate (m_index q1) edge_root"
  define q2 where "q2 = q1\<lparr>m_iter := snd relation\<rparr>"
  define step where "step =
     (if fst relation = INDEXED then
        (if \<not> contains (iter_id (m_index q2) (m_iter q2)) edge_root then Inl DCheckFailed
         else Inr (q2\<lparr>m_cells := m_cells q2 @ [m_iter q2]\<rparr>))
      else if fst relation = SUBDIVIDED then
        GetCells_pcell g
          (if \<not> is_face edge_root then S2PaddedCell_of (SiTitoUV g) edge_root 0 else pcell)
          edge_bound q2
      else Inr q2)"
  have unfold: "GetCells_segments g (segment # segments) q = and_then step (GetCells_segments g segments)"
    by (simp add: step_def q2_def relation_def edge_root_def pcell_def edge_bound_def q1_def Let_def)
  have same: "m_index q2 = m_index q" "m_cells q2 = m_cells q"
    by (simp_all add: q2_def q1_def)
  have "\<exists>q3. step = Inr q3 \<and> m_index q3 = m_index q
        \<and> (\<forall>p\<in>set (m_cells q3). p \<in> set (m_cells q) \<or> p < length (cell_map (m_index q)))"
  proof (cases "fst relation")
    case INDEXED
    from Locate_INDEXED [of "m_index q1" edge_root] INDEXED
    have "contains (iter_id (m_index q2) (m_iter q2)) edge_root"
      and "m_iter q2 < length (cell_map (m_index q))"
      by (simp_all add: relation_def q2_def q1_def)
    then show ?thesis
      using INDEXED by (auto simp: step_def same)
  next
    case SUBDIVIDED
    define pc where "pc = (if \<not> is_face edge_root then S2PaddedCell_of (SiTitoUV g) edge_root 0 else pcell)"
    from GetCells_pcell_found [of edge_bound g pc q2]
    obtain q3 where "GetCells_pcell g pc edge_bound q2 = Inr q3" "cells_found [cell_id pc] q2 q3"
      by (auto simp: edge_bound_def FromPointPair_not_empty)
    then show ?thesis
      using SUBDIVIDED by (auto simp: step_def same pc_def cells_found_def)
  next
    case DISJOINT
    then show ?thesis by (simp add: step_def same)
  qed
  then obtain q3 where q3: "step = Inr q3" "m_index q3 = m_index q"
    "\<forall>p\<in>set (m_cells q3). p \<in> set (m_cells q) \<or> p < length (cell_map (m_index q))"
    by blast
  from Cons.IH [of q3]
  obtain q' where "GetCells_segments g segments q3 = Inr q'" "m_index q' = m_index q3"
    "\<forall>p\<in>set (m_cells q'). p \<in> set (m_cells q3) \<or> p < length (cell_map (m_index q3))"
    by blast
  then show ?case
    unfolding unfold using q3 by auto
qed

lemma GetCells_total:
  "\<exists>q'. GetCells g a b q = Inr q' \<and> m_index q' = m_index q
        \<and> (\<forall>p\<in>set (m_cells q'). p < length (cell_map (m_index q)))"
  using GetCells_segments_total [of g "GetFaceSegments g a b" "q\<lparr>m_cells := []\<rparr>"]
  by (auto simp: GetCells_def)

section \<open>A sample index and a sample query\<close>

text \<open>
  Concrete data on which the model is run: externals for points that lie on face 0 (the
  face coordinates of a point are its first two coordinates, the projection of the integer
  coordinates is linear, and no edge root is shrunk below the face cell), a shape with 40
  edges, an index that stores the four level-1 cells of face 0, and the query edge from
  \<open>(-1/2, -1/2)\<close> to \<open>(1/2, 1/2)\<close>.
\<close>

definition sample_ext :: S2External where
  "sample_ext =
     \<lparr>GetFaceSegments = (\<lambda>a b. [\<lparr>seg_face = 0, seg_a = (fst a, fst (snd a)), seg_b = (fst b, fst (snd b))\<rparr>]),
      ClipToFace = (\<lambda>a b f. if f = 0 then Some ((fst a, fst (snd a)), (fst b, fst (snd b))) else None),
      InterpolateDouble = (\<lambda>x a b a1 b1. a1 + (b1 - a1) * (x - a) / (b - a)),
      ShrinkToFit = (\<lambda>pcell rect. cell_id pcell),
      SiTitoUV = (\<lambda>si. real si / 2 ^ 30 - 1)\<rparr>"

definition sample_shape :: S2Shape where
  "sample_shape = \<lparr>id_of = 0, num_edges = 40\<rparr>"

definition sample_index :: S2ShapeIndex where
  "sample_index =
     \<lparr>cell_map =
        [(S2CellId 0 1, [\<lparr>shape_id = 0, clipped_edges = [3, 5]\<rparr>]),
         (S2CellId 1 1, [\<lparr>shape_id = 0, clipped_edges = [5, 7]\<rparr>]),
         (S2CellId 2 1, [\<lparr>shape_id = 0, clipped_edges = [1]\<rparr>]),
         (S2CellId 3 1, [\<lparr>shape_id = 0, clipped_edges = [7, 2]\<rparr>])],
      shapes = [sample_shape]\<rparr>"

definition sample_query :: S2EdgeQuery where
  "sample_query = \<lparr>m_index = sample_index, m_iter = 0, m_a = (0, 0), m_b = (0, 0), m_cells = []\<rparr>"

definition sample_a :: S2Point where "sample_a = (- 1 / 2, - 1 / 2, 1)"
definition sample_b :: S2Point where "sample_b = (1 / 2, 1 / 2, 1)"

definition sample_root :: S2PaddedCell where
  "sample_root = S2PaddedCell_of (SiTitoUV sample_ext) (FromFace 0) 0"

lemma sample_root_eq:
  "sample_root = \<lparr>cell_id = S2CellId 0 0, padding_of = 0,
      bound = \<lparr>bounds0 = \<lparr>lo = - 1, hi = 1\<rparr>, bounds1 = \<lparr>lo = - 1, hi = 1\<rparr>\<rparr>, ij_lo = (0, 0)\<rparr>"
  by (simp add: sample_root_def S2PaddedCell_of_def FromFace_def)

lemma sample_calls:
  "GetCells_calls sample_ext (- 1 / 2, - 1 / 2) (1 / 2, 1 / 2) sample_root
     \<lparr>bounds0 = \<lparr>lo = - 1 / 2, hi = 1 / 2\<rparr>, bounds1 = \<lparr>lo = - 1 / 2, hi = 1 / 2\<rparr>\<rparr>
   = Inr [(S2PaddedCell_child (SiTitoUV sample_ext) sample_root 0 0,
             \<lparr>bounds0 = \<lparr>lo = - 1 / 2, hi = 0\<rparr>, bounds1 = \<lparr>lo = - 1 / 2, hi = 0\<rparr>\<rparr>),
          (S2PaddedCell_child (SiTitoUV sample_ext) sample_root 0 1,
             \<lparr>bounds0 = \<lparr>lo = 0, hi = 0\<rparr>, bounds1 = \<lparr>lo = 0, hi = 0\<rparr>\<rparr>),
          (S2PaddedCell_child (SiTitoUV sample_ext) sample_root 1 1,
             \<lparr>bounds0 = \<lparr>lo = 0, hi = 1 / 2\<rparr>, bounds1 = \<lparr>lo = 0, hi = 1 / 2\<rparr>\<rparr>)]"
  by (simp add: GetCells_calls_eq ClipVAxis_calls_eq sample_root_eq sample_ext_def middle_def
      rect_lo_def GetSizeIJ_def kMaxLevel_def axis_def SplitUBound_def SplitVBound_def
      SplitBound_def ClampPoint_def R2_set_def R1_set_def is_empty_def R1_is_empty_def
      Contains_def R1_Contains_def Let_def)


lemmas sample_defs =
  sample_ext_def sample_index_def sample_query_def sample_a_def sample_b_def sample_shape_def

lemmas cell_defs =
  id_val_def lsb_def range_min_def range_max_def kMaxLevel_def child_def FromFace_def
  is_face_def contains_def Seek_def Done_def iter_id_def GetSizeIJ_def

lemmas rect_defs =
  FromPointPair_def R1_FromPointPair_def middle_def rect_lo_def axis_def SplitUBound_def
  SplitVBound_def SplitBound_def ClampPoint_def R2_set_def R1_set_def R1_get_def is_empty_def
  R1_is_empty_def Contains_def R1_Contains_def Intersects_def R1_Intersects_def

lemma sample_GetCells:
  "GetCells sample_ext sample_a sample_b sample_query
   = Inr (sample_query\<lparr>m_iter := 3, m_a := (- 1 / 2, - 1 / 2), m_b := (1 / 2, 1 / 2),
                        m_cells := [0, 1, 3]\<rparr>)"
  by (simp add: GetCells_def sample_defs Locate_def S2PaddedCell_of_def S2PaddedCell_child_def
      GetCells_pcell.simps GetCells_split_def ClipVAxis_def cell_defs rect_defs Let_def)

section \<open>Candidate collection\<close>

lemma gather_set:
  "set (foldl (\<lambda>es cell. case find_clipped (cell_at index cell) sid of
                            None \<Rightarrow> es
                          | Some clipped \<Rightarrow> es @ clipped_edges clipped) es0 cells)
   = set es0 \<union> (\<Union>cell\<in>set cells. case find_clipped (cell_at index cell) sid of
                                      None \<Rightarrow> {}
                                    | Some clipped \<Rightarrow> set (clipped_edges clipped))"
  by (induction cells arbitrary: es0) (auto split: option.splits)

lemma strict_remdups_adj_sorted:
  fixes xs :: "'a :: linorder list"
  assumes "sorted xs"
  shows "sorted_wrt (<) (remdups_adj xs)"
  using assms
proof (induction xs rule: remdups_adj.induct)
  case (3 x y xs)
  show ?case
  proof (cases "x = y")
    case True
    with 3 show ?thesis by simp
  next
    case False
    from "3.prems" have "x \<le> y" and "\<forall>z\<in>set xs. y \<le> z" and "sorted (y # xs)"
      by simp_all
    with False have "\<forall>z\<in>set (remdups_adj (y # xs)). x < z"
      unfolding remdups_adj_set by auto
    moreover have "remdups_adj (x # y # xs) = x # remdups_adj (y # xs)"
      using False by simp
    ultimately show ?thesis
      using "3.IH"(2) [OF False \<open>sorted (y # xs)\<close>]
      by (simp only: sorted_wrt.simps)
  qed
qed simp_all

lemma GetCandidates_brute:
  assumes "num_edges shp \<le> 27"
  shows "GetCandidates g a b shp edges q = Inr (q, True, [0..num_edges shp - 1])"
  using assms by (simp add: GetCandidates_def kMaxBruteForceEdges_def)

lemma GetCandidates_indexed:
  assumes "28 \<le> num_edges shp"
  shows "\<exists>q1 es. GetCells g a b q = Inr q1
           \<and> GetCandidates g a b shp edges q = Inr (q1, es \<noteq> [], es)
           \<and> set es = (\<Union>cell\<in>set (m_cells q1).
                          case find_clipped (cell_at (m_index q1) cell) (id_of shp) of
                            None \<Rightarrow> {}
                          | Some clipped \<Rightarrow> set (clipped_edges clipped))
           \<and> (1 < length (m_cells q1) \<longrightarrow> sorted_wrt (<) es)
           \<and> m_index q1 = m_index q"
proof -
  from GetCells_total [of g a b q]
  obtain q1 where q1: "GetCells g a b q = Inr q1" "m_index q1 = m_index q" by blast
  define es1 where "es1 = foldl (\<lambda>es cell.
                               case find_clipped (cell_at (m_index q1) cell) (id_of shp) of
                                 None \<Rightarrow> es
                               | Some clipped \<Rightarrow> es @ clipped_edges clipped)
                             [] (m_cells q1)"
  define es where "es = (if length (m_cells q1) > 1 then remdups_adj (sort es1) else es1)"
  have run: "GetCandidates g a b shp edges q = Inr (q1, es \<noteq> [], es)"
  proof (cases "m_cells q1 = []")
    case True
    then have "es = []" by (simp add: es_def es1_def)
    then show ?thesis
      using assms q1 True by (simp add: GetCandidates_def kMaxBruteForceEdges_def)
  next
    case False
    then show ?thesis
      using assms q1 by (simp add: GetCandidates_def kMaxBruteForceEdges_def es_def es1_def Let_def)
  qed
  have "set es = set es1" by (simp add: es_def)
  moreover have "1 < length (m_cells q1) \<longrightarrow> sorted_wrt (<) es"
    by (simp add: es_def strict_remdups_adj_sorted)
  ultimately show ?thesis
    using q1 run by (auto simp: es1_def gather_set)
qed

lemma GetCandidates_edges_irrelevant:
  "GetCandidates g a b shp edges q = GetCandidates g a b shp [] q"
  by (simp add: GetCandidates_def)

lemma GetCandidates_total:
  "\<exists>q' r es. GetCandidates g a b shp edges q = Inr (q', r, es) \<and> m_index q' = m_index q
       \<and> (1 < length (m_cells q') \<longrightarrow> sorted_wrt (<) es)
       \<and> (0 < num_edges shp \<longrightarrow> (r \<longleftrightarrow> es \<noteq> []))"
proof (cases "num_edges shp \<le> 27")
  case True
  then show ?thesis
    by (auto simp: GetCandidates_brute)
next
  case False
  then have "28 \<le> num_edges shp" by simp
  from GetCandidates_indexed [OF this, of g a b q edges] show ?thesis
    by auto
qed

lemma EdgeMap_single:
  "\<exists>es. (if length (EdgeMap_at edge_map k) \<noteq> 1 then EdgeMap_at [] k else EdgeMap_at edge_map k)
        = [(k, es)]"
proof (cases "length (EdgeMap_at edge_map k) = 1")
  case False
  then show ?thesis by (simp add: EdgeMap_at_def)
next
  case True
  then obtain entry where entry: "EdgeMap_at edge_map k = [entry]"
    by (cases "EdgeMap_at edge_map k") auto
  have "fst entry = k"
  proof (cases "map_of edge_map k")
    case None
    with entry show ?thesis by (auto simp: EdgeMap_at_def)
  next
    case (Some es)
    with entry have "edge_map = [entry]" by (simp add: EdgeMap_at_def)
    with Some show ?thesis by (cases entry) (simp split: if_splits)
  qed
  with entry True show ?thesis by (cases entry) simp
qed

lemma GetCandidates_EdgeMap_one_shape:
  assumes "num_shape_ids (m_index q) = 1"
  shows "\<exists>q' r es. GetCandidates_EdgeMap g a b edge_map q = Inr (q', r, [(shape (m_index q) 0, es)])
           \<and> GetCandidates g a b (shape (m_index q) 0) [] q = Inr (q', r, es)"
proof -
  define shp where "shp = shape (m_index q) 0"
  from EdgeMap_single [of edge_map shp]
  obtain es0 where em: "(if length (EdgeMap_at edge_map shp) \<noteq> 1 then EdgeMap_at [] shp
                        else EdgeMap_at edge_map shp) = [(shp, es0)]"
    by blast
  from GetCandidates_total [of g a b shp "[]" q]
  obtain q' r es where run: "GetCandidates g a b shp [] q = Inr (q', r, es)"
    by blast
  have "GetCandidates g a b shp (EdgeMap_get [(shp, es0)] shp) q = Inr (q', r, es)"
    by (subst GetCandidates_edges_irrelevant) (rule run)
  then have "GetCandidates_EdgeMap g a b edge_map q = Inr (q', r, [(shp, es)])"
    using assms em
    by (simp add: GetCandidates_EdgeMap_def Let_def shp_def [symmetric] EdgeMap_put_def)
  with run show ?thesis
    unfolding shp_def by blast
qed

lemma GetCandidates_EdgeMap_many_shapes:
  assumes "num_shape_ids (m_index q) \<noteq> 1"
  shows "\<exists>q' em. GetCandidates_EdgeMap g a b edge_map q = Inr (q', em \<noteq> [], em)
           \<and> (1 < length (m_cells q') \<longrightarrow> (\<forall>entry\<in>set em. sorted_wrt (<) (snd entry)))"
proof -
  from GetCells_total [of g a b q]
  obtain q1 where q1: "GetCells g a b q = Inr q1" by blast
  define em2 where "em2 =
      foldl (\<lambda>em cell.
         foldl (\<lambda>em1 clipped.
            let k = shape (m_index q1) (shape_id clipped);
                em2 = EdgeMap_at em1 k
            in EdgeMap_put em2 k (EdgeMap_get em2 k @ clipped_edges clipped))
           em (cell_at (m_index q1) cell))
        [] (m_cells q1)"
  define em3 where "em3 =
      (if length (m_cells q1) > 1
       then map (\<lambda>entry. (fst entry, remdups_adj (sort (snd entry)))) em2
       else em2)"
  have run: "GetCandidates_EdgeMap g a b edge_map q = Inr (q1, em3 \<noteq> [], em3)"
  proof (cases "m_cells q1 = []")
    case True
    then have "em3 = []" by (simp add: em3_def em2_def)
    then show ?thesis
      using assms q1 True by (simp add: GetCandidates_EdgeMap_def)
  next
    case False
    then show ?thesis
      using assms q1 by (simp add: GetCandidates_EdgeMap_def em3_def em2_def Let_def)
  qed
  have "1 < length (m_cells q1) \<longrightarrow> (\<forall>entry\<in>set em3. sorted_wrt (<) (snd entry))"
    by (auto simp: em3_def strict_remdups_adj_sorted)
  with run show ?thesis by blast
qed

definition sample_found :: S2EdgeQuery where
  "sample_found = sample_query\<lparr>m_iter := 3, m_a := (- 1 / 2, - 1 / 2), m_b := (1 / 2, 1 / 2),
                               m_cells := [0, 1, 3]\<rparr>"

definition sample_bound :: R2Rect where
  "sample_bound = \<lparr>bounds0 = \<lparr>lo = - 1 / 2, hi = 1 / 2\<rparr>, bounds1 = \<lparr>lo = - 1 / 2, hi = 1 / 2\<rparr>\<rparr>"

lemma sample_GetCells_found: "GetCells sample_ext sample_a sample_b sample_query = Inr sample_found"
  by (simp add: sample_GetCells sample_found_def)


section \<open>The cells that an edge touches\<close>


























subsection \<open>Padded cells on the grid of a face\<close>











subsection \<open>Cell ids of descendants\<close>






subsection \<open>The stored cells\<close>









section \<open>The recursive subdivision finds every touched cell\<close>


section \<open>Cell discovery finds every touched cell\<close>















section \<open>Two sample queries for the touched cells\<close>



























section \<open>The claims\<close>



text \<open>
  C2 (brute-force boundary).  For a shape with at most 27 edges the single-shape query
  returns true and the list \<open>[0, count)\<close>, whatever the query edge, the externals
  and the index are, and leaves the engine as it was (the iterator and the cell list are
  not touched).  For a shape with 28 or more edges it runs the cell discovery: the engine
  it returns is the one the discovery leaves, and the list holds the edges that the
  discovered cells list for the shape.
\<close>

theorem brute_force_boundary:
  "(num_edges shp \<le> 27 \<longrightarrow>
      GetCandidates g a b shp edges q = Inr (q, True, [0..num_edges shp - 1]))
   \<and> (28 \<le> num_edges shp \<longrightarrow>
      (\<exists>q1 es. GetCells g a b q = Inr q1
         \<and> GetCandidates g a b shp edges q = Inr (q1, es \<noteq> [], es)
         \<and> set es = (\<Union>cell\<in>set (m_cells q1).
                        case find_clipped (cell_at (m_index q1) cell) (id_of shp) of
                          None \<Rightarrow> {}
                        | Some clipped \<Rightarrow> set (clipped_edges clipped))))"
proof (intro conjI impI)
  assume "num_edges shp \<le> 27"
  then show "GetCandidates g a b shp edges q = Inr (q, True, [0..num_edges shp - 1])"
    by (rule GetCandidates_brute)
next
  assume "28 \<le> num_edges shp"
  from GetCandidates_indexed [OF this, of g a b q edges]
  show "\<exists>q1 es. GetCells g a b q = Inr q1
         \<and> GetCandidates g a b shp edges q = Inr (q1, es \<noteq> [], es)
         \<and> set es = (\<Union>cell\<in>set (m_cells q1).
                        case find_clipped (cell_at (m_index q1) cell) (id_of shp) of
                          None \<Rightarrow> {}
                        | Some clipped \<Rightarrow> set (clipped_edges clipped))"
    by blast
qed

theorem brute_force_boundary_witness:
  "num_edges \<lparr>id_of = 0, num_edges = 27\<rparr> \<le> 27
   \<and> GetCandidates sample_ext sample_a sample_b \<lparr>id_of = 0, num_edges = 27\<rparr> [] sample_query
       = Inr (sample_query, True, [0..26])
   \<and> 28 \<le> num_edges \<lparr>id_of = 0, num_edges = 28\<rparr>
   \<and> (\<exists>es. GetCandidates sample_ext sample_a sample_b \<lparr>id_of = 0, num_edges = 28\<rparr> [] sample_query
              = Inr (sample_found, es \<noteq> [], es))"
proof -
  have h1: "num_edges \<lparr>id_of = 0, num_edges = 27\<rparr> \<le> 27" by simp
  have h2: "28 \<le> num_edges \<lparr>id_of = 0, num_edges = 28\<rparr>" by simp
  from brute_force_boundary [of "\<lparr>id_of = 0, num_edges = 27\<rparr>" sample_ext sample_a sample_b "[]" sample_query] h1
  have "GetCandidates sample_ext sample_a sample_b \<lparr>id_of = 0, num_edges = 27\<rparr> [] sample_query
       = Inr (sample_query, True, [0..26])"
    by simp
  moreover
  from brute_force_boundary [of "\<lparr>id_of = 0, num_edges = 28\<rparr>" sample_ext sample_a sample_b "[]" sample_query] h2
  have "\<exists>es. GetCandidates sample_ext sample_a sample_b \<lparr>id_of = 0, num_edges = 28\<rparr> [] sample_query
              = Inr (sample_found, es \<noteq> [], es)"
    by (auto simp: sample_GetCells_found)
  ultimately show ?thesis using h1 h2 by blast
qed

text \<open>
  C3 (the value returned and the emptiness of the list).  On the indexed path the query
  returns true exactly when the list is not empty (\<open>GetCandidates_indexed\<close>).  On
  the brute-force path it returns true without looking at the list: for a shape with zero
  edges it returns true with an empty list.
\<close>

theorem zero_edge_shape_returns_true:
  "GetCandidates g a b \<lparr>id_of = sid, num_edges = 0\<rparr> edges q = Inr (q, True, [])"
  by (simp add: GetCandidates_def kMaxBruteForceEdges_def)

text \<open>
  Two more engines: one whose index holds the sample shape in the lower left level-1 cell
  only, queried also with an edge that lies in the upper right cell, and one whose index
  holds a second shape.
\<close>

definition corner_query :: S2EdgeQuery where
  "corner_query =
     \<lparr>m_index = \<lparr>cell_map = [(S2CellId 0 1, [\<lparr>shape_id = 0, clipped_edges = [3, 5]\<rparr>])],
                 shapes = [sample_shape]\<rparr>,
      m_iter = 0, m_a = (0, 0), m_b = (0, 0), m_cells = []\<rparr>"

definition far_a :: S2Point where "far_a = (1 / 4, 1 / 4, 1)"

definition far_b :: S2Point where "far_b = (1 / 2, 1 / 2, 1)"

definition corner_missed :: S2EdgeQuery where
  "corner_missed = corner_query\<lparr>m_iter := 1, m_a := (1 / 4, 1 / 4), m_b := (1 / 2, 1 / 2)\<rparr>"

definition corner_found :: S2EdgeQuery where
  "corner_found = corner_query\<lparr>m_iter := 1, m_a := (- 1 / 2, - 1 / 2), m_b := (1 / 2, 1 / 2),
                               m_cells := [0]\<rparr>"

definition two_shape_query :: S2EdgeQuery where
  "two_shape_query =
     sample_query\<lparr>m_index := sample_index\<lparr>shapes := [sample_shape, \<lparr>id_of = 1, num_edges = 3\<rparr>]\<rparr>\<rparr>"

lemmas eval_defs =
  GetCells_def Locate_def S2PaddedCell_of_def S2PaddedCell_child_def GetCells_pcell.simps
  GetCells_split_def ClipVAxis_def cell_defs rect_defs Let_def

lemma corner_GetCells_missed:
  "GetCells sample_ext far_a far_b corner_query = Inr corner_missed"
  "GetCells sample_ext far_a far_b corner_found = Inr corner_missed"
  by (simp_all add: corner_query_def corner_missed_def corner_found_def far_a_def far_b_def
      sample_ext_def eval_defs)

lemma corner_GetCells_found:
  "GetCells sample_ext sample_a sample_b corner_query = Inr corner_found"
  by (simp add: corner_query_def corner_found_def sample_a_def sample_b_def sample_ext_def
      eval_defs)

lemma corner_shape:
  "num_shape_ids (m_index corner_query) = 1" "shape (m_index corner_query) 0 = sample_shape"
  "num_shape_ids (m_index corner_found) = 1" "shape (m_index corner_found) 0 = sample_shape"
  by (simp_all add: num_shape_ids_def shape_def corner_query_def corner_found_def)

lemma corner_GetCandidates_missed:
  "GetCandidates sample_ext far_a far_b sample_shape [] corner_query
   = Inr (corner_missed, False, [])"
  "GetCandidates sample_ext far_a far_b sample_shape [] corner_found
   = Inr (corner_missed, False, [])"
proof -
  have "m_cells corner_missed = []"
    by (simp add: corner_missed_def corner_query_def)
  then show "GetCandidates sample_ext far_a far_b sample_shape [] corner_query
      = Inr (corner_missed, False, [])"
    and "GetCandidates sample_ext far_a far_b sample_shape [] corner_found
      = Inr (corner_missed, False, [])"
    by (simp_all add: GetCandidates_def kMaxBruteForceEdges_def sample_shape_def
        corner_GetCells_missed)
qed

lemma corner_GetCandidates_found:
  "GetCandidates sample_ext sample_a sample_b sample_shape [] corner_query
   = Inr (corner_found, True, [3, 5])"
proof -
  have "m_cells corner_found = [0]"
    and "m_index corner_found = m_index corner_query"
    by (simp_all add: corner_found_def corner_query_def)
  then show ?thesis
    by (simp add: GetCandidates_def kMaxBruteForceEdges_def sample_shape_def
        corner_GetCells_found)
       (simp add: corner_query_def cell_at_def find_clipped_def)
qed

lemma two_shape_GetCells:
  "GetCells sample_ext sample_a sample_b two_shape_query
   = Inr (two_shape_query\<lparr>m_iter := 3, m_a := (- 1 / 2, - 1 / 2), m_b := (1 / 2, 1 / 2),
                           m_cells := [0, 1, 3]\<rparr>)"
  by (simp add: GetCells_def two_shape_query_def sample_defs Locate_def S2PaddedCell_of_def
      S2PaddedCell_child_def GetCells_pcell.simps GetCells_split_def ClipVAxis_def cell_defs
      rect_defs Let_def)

text \<open>
  C4 (the value returned by the multi-shape query), as amended.  When the index does not
  hold exactly one shape, the multi-shape query returns true exactly when the mapping it
  leaves is not empty.  When the index holds exactly one shape, the mapping is left with
  exactly one entry, keyed by that shape, and for a shape that has an edge the query
  returns true exactly when the edge sequence of that entry is not empty.
\<close>

theorem multi_shape_return_value:
  "(num_shape_ids (m_index q) \<noteq> 1 \<longrightarrow>
      (\<exists>q' r em. GetCandidates_EdgeMap g a b edge_map q = Inr (q', r, em) \<and> (r \<longleftrightarrow> em \<noteq> [])))
   \<and> (num_shape_ids (m_index q) = 1 \<longrightarrow>
      (\<exists>q' r es. GetCandidates_EdgeMap g a b edge_map q
                    = Inr (q', r, [(shape (m_index q) 0, es)])
         \<and> (0 < num_edges (shape (m_index q) 0) \<longrightarrow> (r \<longleftrightarrow> es \<noteq> []))))"
proof (intro conjI impI)
  assume "num_shape_ids (m_index q) \<noteq> 1"
  from GetCandidates_EdgeMap_many_shapes [OF this, of g a b edge_map]
  show "\<exists>q' r em. GetCandidates_EdgeMap g a b edge_map q = Inr (q', r, em) \<and> (r \<longleftrightarrow> em \<noteq> [])"
    by blast
next
  assume "num_shape_ids (m_index q) = 1"
  from GetCandidates_EdgeMap_one_shape [OF this, of g a b edge_map]
  obtain q' r es where run: "GetCandidates_EdgeMap g a b edge_map q
                    = Inr (q', r, [(shape (m_index q) 0, es)])"
    and single: "GetCandidates g a b (shape (m_index q) 0) [] q = Inr (q', r, es)"
    by blast
  from GetCandidates_total [of g a b "shape (m_index q) 0" "[]" q] single
  have "0 < num_edges (shape (m_index q) 0) \<longrightarrow> (r \<longleftrightarrow> es \<noteq> [])"
    by auto
  with run show "\<exists>q' r es. GetCandidates_EdgeMap g a b edge_map q
                    = Inr (q', r, [(shape (m_index q) 0, es)])
         \<and> (0 < num_edges (shape (m_index q) 0) \<longrightarrow> (r \<longleftrightarrow> es \<noteq> []))"
    by blast
qed


lemma two_shape_GetCandidates_EdgeMap:
  "GetCandidates_EdgeMap sample_ext sample_a sample_b [] two_shape_query
   = Inr (two_shape_query\<lparr>m_iter := 3, m_a := (- 1 / 2, - 1 / 2), m_b := (1 / 2, 1 / 2),
                           m_cells := [0, 1, 3]\<rparr>,
          True, [(sample_shape, [2, 3, 5, 7])])"
proof -
  have "num_shape_ids (m_index two_shape_query) = 2"
    by (simp add: num_shape_ids_def two_shape_query_def sample_query_def sample_index_def)
  then show ?thesis
    by (simp add: GetCandidates_EdgeMap_def two_shape_GetCells)
       (simp add: two_shape_query_def sample_query_def sample_index_def cell_at_def shape_def
          EdgeMap_at_def EdgeMap_get_def EdgeMap_put_def)
qed

theorem multi_shape_return_value_witness:
  "num_shape_ids (m_index two_shape_query) \<noteq> 1
   \<and> (\<exists>q' r em. GetCandidates_EdgeMap sample_ext sample_a sample_b [] two_shape_query = Inr (q', r, em)
         \<and> (r \<longleftrightarrow> em \<noteq> []))
   \<and> num_shape_ids (m_index sample_query) = 1
   \<and> 0 < num_edges (shape (m_index sample_query) 0)
   \<and> (\<exists>q' r es. GetCandidates_EdgeMap sample_ext sample_a sample_b [] sample_query
                    = Inr (q', r, [(shape (m_index sample_query) 0, es)])
         \<and> (r \<longleftrightarrow> es \<noteq> []))"
proof -
  have h1: "num_shape_ids (m_index two_shape_query) \<noteq> 1"
    by (simp add: num_shape_ids_def two_shape_query_def sample_query_def sample_index_def)
  have h2: "num_shape_ids (m_index sample_query) = 1"
    by (simp add: num_shape_ids_def sample_query_def sample_index_def)
  have h3: "0 < num_edges (shape (m_index sample_query) 0)"
    by (simp add: shape_def sample_query_def sample_index_def sample_shape_def)
  from multi_shape_return_value [of two_shape_query sample_ext sample_a sample_b "[]"] h1
  have "\<exists>q' r em. GetCandidates_EdgeMap sample_ext sample_a sample_b [] two_shape_query = Inr (q', r, em)
         \<and> (r \<longleftrightarrow> em \<noteq> [])"
    by blast
  moreover
  from multi_shape_return_value [of sample_query sample_ext sample_a sample_b "[]"] h2 h3
  have "\<exists>q' r es. GetCandidates_EdgeMap sample_ext sample_a sample_b [] sample_query
                    = Inr (q', r, [(shape (m_index sample_query) 0, es)])
         \<and> (r \<longleftrightarrow> es \<noteq> [])"
    by blast
  ultimately show ?thesis using h1 h2 h3 by blast
qed

text \<open>
  C4 as stated fails: on an index with one shape, queried with an edge that touches none
  of its cells, the multi-shape query returns false and leaves the mapping with one entry,
  the shape with an empty edge sequence.
\<close>

theorem one_shape_index_false_with_entry:
  "GetCandidates_EdgeMap sample_ext far_a far_b [] corner_query
   = Inr (corner_missed, False, [(sample_shape, [])])
   \<and> [(sample_shape, [])] \<noteq> ([] :: EdgeMap)"
  by (simp add: GetCandidates_EdgeMap_def corner_shape corner_GetCandidates_missed
      EdgeMap_at_def EdgeMap_get_def EdgeMap_put_def)

lemma GetCells_root_total:
  "\<exists>q' r cells'. GetCells_root g a b root_cell cells q = Inr (q', r, cells')
       \<and> m_index q' = m_index q \<and> distinct (m_cells q')
       \<and> (r \<longleftrightarrow> m_cells q' \<noteq> [])
       \<and> cells' = (if r then m_cells q' else cells)"
proof -
  define q1 where "q1 = q\<lparr>m_cells := []\<rparr>"
  define found where "found =
     (case ClipToFace g a b (face (cell_id root_cell)) of
        None \<Rightarrow> Inr q1
      | Some clipped \<Rightarrow>
          let q2 = q1\<lparr>m_a := fst clipped, m_b := snd clipped\<rparr>;
              edge_bound = FromPointPair (m_a q2) (m_b q2)
          in if Intersects (bound root_cell) edge_bound
             then GetCells_pcell g root_cell edge_bound q2
             else Inr q2)"
  have unfold: "GetCells_root g a b root_cell cells q =
      and_then found (\<lambda>q3. if m_cells q3 = [] then Inr (q3, False, cells)
                            else Inr (q3, True, m_cells q3))"
    by (simp only: GetCells_root_def found_def q1_def Let_def)
  have "\<exists>q3. found = Inr q3 \<and> m_index q3 = m_index q \<and> distinct (m_cells q3)"
  proof (cases "ClipToFace g a b (face (cell_id root_cell))")
    case None
    then show ?thesis by (simp add: found_def q1_def)
  next
    case (Some clipped)
    define q2 where "q2 = q1\<lparr>m_a := fst clipped, m_b := snd clipped\<rparr>"
    define edge_bound where "edge_bound = FromPointPair (m_a q2) (m_b q2)"
    have q2: "m_index q2 = m_index q" "m_cells q2 = []"
      by (simp_all add: q2_def q1_def)
    show ?thesis
    proof (cases "Intersects (bound root_cell) edge_bound")
      case True
      from GetCells_pcell_found [of edge_bound g root_cell q2]
      obtain q3 where "GetCells_pcell g root_cell edge_bound q2 = Inr q3"
        "cells_found [cell_id root_cell] q2 q3"
        by (auto simp: edge_bound_def FromPointPair_not_empty)
      then show ?thesis
        using Some True q2
        by (auto simp: found_def Let_def q2_def [symmetric] edge_bound_def [symmetric]
            cells_found_def)
    next
      case False
      then show ?thesis
        using Some q2
        by (simp add: found_def Let_def q2_def [symmetric] edge_bound_def [symmetric])
    qed
  qed
  then show ?thesis
    unfolding unfold by auto
qed

text \<open>
  C5 (root-seeded query, negative case).  When the root-seeded query returns false, the
  engine's own cell list is empty and the caller's vector is what it was before the call:
  the source returns before \<open>cells->assign\<close>, so a vector that was not empty when
  it was passed in is not empty afterwards.
\<close>

theorem root_query_false_keeps_cells:
  assumes "GetCells_root g a b root_cell cells q = Inr (q', False, cells')"
  shows "cells' = cells \<and> m_cells q' = []"
  using GetCells_root_total [of g a b root_cell cells q] assms by auto

theorem root_query_false_keeps_cells_witness:
  "GetCells_root sample_ext sample_a sample_b (S2PaddedCell_of (SiTitoUV sample_ext) (FromFace 1) 0)
     [9] sample_query = Inr (sample_query, False, [9])
   \<and> [9 :: nat] \<noteq> []"
proof -
  have h: "GetCells_root sample_ext sample_a sample_b
             (S2PaddedCell_of (SiTitoUV sample_ext) (FromFace 1) 0) [9] sample_query
           = Inr (sample_query, False, [9])"
    by (simp add: GetCells_root_def sample_ext_def sample_query_def S2PaddedCell_of_def
        FromFace_def face_def)
  from root_query_false_keeps_cells [OF h] h show ?thesis by simp
qed



text \<open>
  C7 (reuse of the mapping on a one-shape index).  On an index that holds exactly one
  shape, a multi-shape query started with any mapping and any state of the engine leaves
  the mapping with exactly one entry, keyed by that shape; the edge sequence of the entry
  is the result of the single-shape query started with an empty vector, so nothing of the
  mapping's earlier contents is kept.  The value returned is that of the single-shape
  query (the entry may hold an empty sequence), and the index of the engine is unchanged,
  so the same holds for the next call of a sequence.
\<close>

theorem one_shape_map_replaced:
  assumes "num_shape_ids (m_index q) = 1"
  shows "\<exists>q' r es. GetCandidates_EdgeMap g a b edge_map q
                     = Inr (q', r, [(shape (m_index q) 0, es)])
           \<and> GetCandidates g a b (shape (m_index q) 0) [] q = Inr (q', r, es)
           \<and> m_index q' = m_index q"
proof -
  from GetCandidates_EdgeMap_one_shape [OF assms, of g a b edge_map]
  obtain q' r es where run: "GetCandidates_EdgeMap g a b edge_map q
                    = Inr (q', r, [(shape (m_index q) 0, es)])"
    and single: "GetCandidates g a b (shape (m_index q) 0) [] q = Inr (q', r, es)"
    by blast
  from GetCandidates_total [of g a b "shape (m_index q) 0" "[]" q] single
  have "m_index q' = m_index q" by auto
  with run single show ?thesis by blast
qed

theorem one_shape_map_replaced_witness:
  "num_shape_ids (m_index corner_query) = 1
   \<and> GetCandidates_EdgeMap sample_ext sample_a sample_b
        [(sample_shape, [8, 9]), (\<lparr>id_of = 1, num_edges = 3\<rparr>, [1])] corner_query
      = Inr (corner_found, True, [(sample_shape, [3, 5])])
   \<and> num_shape_ids (m_index corner_found) = 1
   \<and> GetCandidates_EdgeMap sample_ext far_a far_b [(sample_shape, [3, 5])] corner_found
      = Inr (corner_missed, False, [(sample_shape, [])])"
proof -
  have h1: "num_shape_ids (m_index corner_query) = 1"
    and h2: "num_shape_ids (m_index corner_found) = 1"
    by (simp_all add: corner_shape)
  from one_shape_map_replaced [OF h1, of sample_ext sample_a sample_b
      "[(sample_shape, [8, 9]), (\<lparr>id_of = 1, num_edges = 3\<rparr>, [1])]"]
  have "GetCandidates_EdgeMap sample_ext sample_a sample_b
        [(sample_shape, [8, 9]), (\<lparr>id_of = 1, num_edges = 3\<rparr>, [1])] corner_query
      = Inr (corner_found, True, [(sample_shape, [3, 5])])"
    by (auto simp: corner_shape corner_GetCandidates_found)
  moreover
  from one_shape_map_replaced [OF h2, of sample_ext far_a far_b "[(sample_shape, [3, 5])]"]
  have "GetCandidates_EdgeMap sample_ext far_a far_b [(sample_shape, [3, 5])] corner_found
      = Inr (corner_missed, False, [(sample_shape, [])])"
    by (auto simp: corner_shape corner_GetCandidates_missed)
  ultimately show ?thesis using h1 h2 by blast
qed

text \<open>
  C8 (split-bound consistency).  Started on an edge bound that is not empty, the recursive
  subdivision returns: none of the assertions of \<open>SplitBound\<close> fails in any step,
  for every index, every padded cell, every interpolation function and every pair of
  segment endpoints.  One split at a coordinate inside the bound's range on the split
  axis, as \<open>GetCells\<close> and \<open>ClipVAxis\<close> call it, yields two child bounds that
  are not empty and are contained in the parent bound.
\<close>

theorem split_bounds_consistent:
  assumes "\<not> is_empty edge_bound"
  shows "(\<exists>q'. GetCells_pcell g pcell edge_bound q = Inr q')
         \<and> (lo (axis edge_bound 0) \<le> u \<and> u \<le> hi (axis edge_bound 0) \<longrightarrow>
              (\<exists>c0 c1. SplitUBound g a b edge_bound u = Inr (c0, c1)
                 \<and> \<not> is_empty c0 \<and> \<not> is_empty c1
                 \<and> Contains edge_bound c0 \<and> Contains edge_bound c1))
         \<and> (lo (axis edge_bound 1) \<le> v \<and> v \<le> hi (axis edge_bound 1) \<longrightarrow>
              (\<exists>c0 c1. SplitVBound g a b edge_bound v = Inr (c0, c1)
                 \<and> \<not> is_empty c0 \<and> \<not> is_empty c1
                 \<and> Contains edge_bound c0 \<and> Contains edge_bound c1))"
proof (intro conjI impI)
  from GetCells_pcell_found [OF assms, of g pcell q]
  show "\<exists>q'. GetCells_pcell g pcell edge_bound q = Inr q'" by blast
next
  assume "lo (axis edge_bound 0) \<le> u \<and> u \<le> hi (axis edge_bound 0)"
  then have "lo (axis edge_bound 0) \<le> u" and "u \<le> hi (axis edge_bound 0)" by simp_all
  from SplitUBound_ok [OF assms this, of g a b]
  show "\<exists>c0 c1. SplitUBound g a b edge_bound u = Inr (c0, c1)
                 \<and> \<not> is_empty c0 \<and> \<not> is_empty c1
                 \<and> Contains edge_bound c0 \<and> Contains edge_bound c1"
    by blast
next
  assume "lo (axis edge_bound 1) \<le> v \<and> v \<le> hi (axis edge_bound 1)"
  then have "lo (axis edge_bound 1) \<le> v" and "v \<le> hi (axis edge_bound 1)" by simp_all
  from SplitVBound_ok [OF assms this, of g a b]
  show "\<exists>c0 c1. SplitVBound g a b edge_bound v = Inr (c0, c1)
                 \<and> \<not> is_empty c0 \<and> \<not> is_empty c1
                 \<and> Contains edge_bound c0 \<and> Contains edge_bound c1"
    by blast
qed

lemma sample_bound_facts:
  "\<not> is_empty sample_bound"
  "lo (axis sample_bound 0) = - 1 / 2" "hi (axis sample_bound 0) = 1 / 2"
  "lo (axis sample_bound 1) = - 1 / 2" "hi (axis sample_bound 1) = 1 / 2"
  by (simp_all add: sample_bound_def is_empty_def R1_is_empty_def axis_def)

lemma sample_bound_straddles:
  "lo (axis sample_bound 0) < 0" "0 \<le> hi (axis sample_bound 0)"
  "lo (axis sample_bound 1) < 0" "0 \<le> hi (axis sample_bound 1)"
  by (simp_all add: sample_bound_def axis_def)

theorem split_bounds_consistent_witness:
  "\<not> is_empty sample_bound
   \<and> lo (axis sample_bound 0) \<le> 0 \<and> 0 \<le> hi (axis sample_bound 0)
   \<and> lo (axis sample_bound 1) \<le> 0 \<and> 0 \<le> hi (axis sample_bound 1)
   \<and> (\<exists>q'. GetCells_pcell sample_ext sample_root sample_bound sample_query = Inr q')
   \<and> (\<exists>c0 c1. SplitUBound sample_ext (- 1 / 2, - 1 / 2) (1 / 2, 1 / 2) sample_bound 0 = Inr (c0, c1)
         \<and> \<not> is_empty c0 \<and> \<not> is_empty c1
         \<and> Contains sample_bound c0 \<and> Contains sample_bound c1)
   \<and> (\<exists>c0 c1. SplitVBound sample_ext (- 1 / 2, - 1 / 2) (1 / 2, 1 / 2) sample_bound 0 = Inr (c0, c1)
         \<and> \<not> is_empty c0 \<and> \<not> is_empty c1
         \<and> Contains sample_bound c0 \<and> Contains sample_bound c1)"
proof -
  have h: "\<not> is_empty sample_bound"
    and hu: "lo (axis sample_bound 0) \<le> 0 \<and> 0 \<le> hi (axis sample_bound 0)"
    and hv: "lo (axis sample_bound 1) \<le> 0 \<and> 0 \<le> hi (axis sample_bound 1)"
    using sample_bound_straddles by (simp_all add: sample_bound_facts(1) less_imp_le)
  from split_bounds_consistent [OF h, of sample_ext sample_root sample_query 0
      "(- 1 / 2, - 1 / 2)" "(1 / 2, 1 / 2)" 0] h hu hv
  show ?thesis by blast
qed

text \<open>
  C9 (at most three children).  In a step whose edge bound straddles the centre of the
  cell on both axes, the split makes at most three recursive calls, whatever function it
  calls: the calls it makes are the list \<open>calls\<close>, and they are calls on
  different child quadrants \<open>(i, j)\<close> of the cell.  Of the two strips that
  \<open>SplitUBound\<close> returns, at most one straddles the v-centre, that is, takes the
  two-children branch of \<open>ClipVAxis\<close>.
\<close>

theorem at_most_three_children:
  assumes "cu = fst (rect_lo (middle (SiTitoUV g) pcell))"
    and "cv = snd (rect_lo (middle (SiTitoUV g) pcell))"
    and "lo (axis edge_bound 0) < cu" and "cu \<le> hi (axis edge_bound 0)"
    and "lo (axis edge_bound 1) < cv" and "cv \<le> hi (axis edge_bound 1)"
  shows "\<exists>calls ijs strips. GetCells_calls g a b pcell edge_bound = Inr calls
           \<and> length calls \<le> 3
           \<and> map fst calls
               = map (\<lambda>ij. S2PaddedCell_child (SiTitoUV g) pcell (fst ij) (snd ij)) ijs
           \<and> distinct ijs \<and> (\<forall>ij\<in>set ijs. fst ij < 2 \<and> snd ij < 2)
           \<and> (\<forall>(recurse :: S2PaddedCell \<Rightarrow> R2Rect \<Rightarrow> 's \<Rightarrow> 's result) s.
                 GetCells_split recurse g a b pcell edge_bound s = run_calls recurse calls s)
           \<and> SplitUBound g a b edge_bound cu = Inr strips
           \<and> \<not> ((lo (axis (fst strips) 1) < cv \<and> cv \<le> hi (axis (fst strips) 1))
                \<and> (lo (axis (snd strips) 1) < cv \<and> cv \<le> hi (axis (snd strips) 1)))"
proof -
  have ne: "\<not> is_empty edge_bound"
    using assms(3-6) by (simp add: is_empty_def R1_is_empty_def axis_def)
  from GetCells_calls_ok [OF ne, of g a b pcell]
  obtain calls ijs where calls: "GetCells_calls g a b pcell edge_bound = Inr calls"
    and quad: "quadrant_calls g pcell edge_bound ijs calls"
    and len: "length calls \<le> 3"
    by blast
  from quad have children:
    "map fst calls = map (\<lambda>ij. S2PaddedCell_child (SiTitoUV g) pcell (fst ij) (snd ij)) ijs"
    "distinct ijs" "\<forall>ij\<in>set ijs. fst ij < 2 \<and> snd ij < 2"
    by (simp_all add: quadrant_calls_def)
  have run: "GetCells_split recurse g a b pcell edge_bound s = run_calls recurse calls s"
    for recurse :: "S2PaddedCell \<Rightarrow> R2Rect \<Rightarrow> 's \<Rightarrow> 's result" and s
    by (simp add: GetCells_split_run calls)
  have "lo (axis edge_bound 0) \<le> cu" using assms(3) by simp
  from SplitUBound_ok [OF ne this assms(4), of g a b]
  obtain s0 s1 where split: "SplitUBound g a b edge_bound cu = Inr (s0, s1)"
    and shared: "lo (axis s0 1) = lo (axis edge_bound 1) \<and> hi (axis s0 1) = lo (axis s1 1)
                \<and> hi (axis s1 1) = hi (axis edge_bound 1)
              \<or> lo (axis s1 1) = lo (axis edge_bound 1) \<and> hi (axis s1 1) = lo (axis s0 1)
                \<and> hi (axis s0 1) = hi (axis edge_bound 1)"
    by blast
  have "\<not> ((lo (axis s0 1) < cv \<and> cv \<le> hi (axis s0 1))
           \<and> (lo (axis s1 1) < cv \<and> cv \<le> hi (axis s1 1)))"
    using shared by linarith
  with calls len children run split show ?thesis
    by (intro exI [of _ calls] exI [of _ ijs] exI [of _ "(s0, s1)"]) simp
qed

lemma sample_center: "rect_lo (middle (SiTitoUV sample_ext) sample_root) = (0, 0)"
  by (simp add: sample_root_eq sample_ext_def middle_def rect_lo_def GetSizeIJ_def kMaxLevel_def)

theorem at_most_three_children_witness:
  "0 = fst (rect_lo (middle (SiTitoUV sample_ext) sample_root))
   \<and> 0 = snd (rect_lo (middle (SiTitoUV sample_ext) sample_root))
   \<and> lo (axis sample_bound 0) < 0 \<and> 0 \<le> hi (axis sample_bound 0)
   \<and> lo (axis sample_bound 1) < 0 \<and> 0 \<le> hi (axis sample_bound 1)
   \<and> (\<exists>calls. GetCells_calls sample_ext (- 1 / 2, - 1 / 2) (1 / 2, 1 / 2) sample_root sample_bound
                 = Inr calls \<and> length calls \<le> 3)
   \<and> GetCells_calls sample_ext (- 1 / 2, - 1 / 2) (1 / 2, 1 / 2) sample_root sample_bound
      = Inr [(S2PaddedCell_child (SiTitoUV sample_ext) sample_root 0 0,
                \<lparr>bounds0 = \<lparr>lo = - 1 / 2, hi = 0\<rparr>, bounds1 = \<lparr>lo = - 1 / 2, hi = 0\<rparr>\<rparr>),
             (S2PaddedCell_child (SiTitoUV sample_ext) sample_root 0 1,
                \<lparr>bounds0 = \<lparr>lo = 0, hi = 0\<rparr>, bounds1 = \<lparr>lo = 0, hi = 0\<rparr>\<rparr>),
             (S2PaddedCell_child (SiTitoUV sample_ext) sample_root 1 1,
                \<lparr>bounds0 = \<lparr>lo = 0, hi = 1 / 2\<rparr>, bounds1 = \<lparr>lo = 0, hi = 1 / 2\<rparr>\<rparr>)]"
proof -
  have h1: "0 = fst (rect_lo (middle (SiTitoUV sample_ext) sample_root))"
    and h2: "0 = snd (rect_lo (middle (SiTitoUV sample_ext) sample_root))"
    by (simp_all add: sample_center)
  have h3: "lo (axis sample_bound 0) < 0" and h4: "0 \<le> hi (axis sample_bound 0)"
    and h5: "lo (axis sample_bound 1) < 0" and h6: "0 \<le> hi (axis sample_bound 1)"
    by (rule sample_bound_straddles)+
  from at_most_three_children [OF h1 h2 h3 h4 h5 h6, of "(- 1 / 2, - 1 / 2)" "(1 / 2, 1 / 2)"]
  have "\<exists>calls. GetCells_calls sample_ext (- 1 / 2, - 1 / 2) (1 / 2, 1 / 2) sample_root sample_bound
                 = Inr calls \<and> length calls \<le> 3"
    by blast
  with h1 h2 h3 h4 h5 h6 sample_calls show ?thesis
    unfolding sample_bound_def by blast
qed

text \<open>
  C10 (no index cell twice).  The root-seeded query returns, the engine's cell list holds
  no cell twice, and when the query returns true the caller's vector is that list.
\<close>

theorem root_query_cells_distinct:
  "\<exists>q' r cells'. GetCells_root g a b root_cell cells q = Inr (q', r, cells')
       \<and> distinct (m_cells q') \<and> (r \<longrightarrow> cells' = m_cells q' \<and> distinct cells')"
  using GetCells_root_total [of g a b root_cell cells q] by auto

lemma sample_GetCells_root:
  "GetCells_root sample_ext sample_a sample_b sample_root [9] sample_query
   = Inr (sample_found, True, [0, 1, 3])"
  by (simp add: GetCells_root_def sample_root_eq sample_found_def sample_defs face_def
      S2PaddedCell_child_def GetCells_pcell.simps GetCells_split_def ClipVAxis_def cell_defs
      rect_defs Let_def)

theorem root_query_cells_distinct_witness:
  "GetCells_root sample_ext sample_a sample_b sample_root [9] sample_query
     = Inr (sample_found, True, [0, 1, 3])
   \<and> distinct [0, 1, 3 :: nat]"
proof -
  from root_query_cells_distinct [of sample_ext sample_a sample_b sample_root "[9]" sample_query]
  have "distinct [0, 1, 3 :: nat]"
    by (simp add: sample_GetCells_root)
  then show ?thesis
    by (simp add: sample_GetCells_root)
qed

end
